theory Spec2Isabelle
  imports Main "HOL-Library.Word" "HOL-Library.Multiset" "HOL-Library.Char_ord"
    "HOL-Library.List_Lexorder" "HOL-Library.Sublist"
begin

section \<open>Values, structs and the store\<close>

text \<open>
  Go's \<open>int\<close> is 64 bits wide on the amd64 targets the repository is built for;
  \<open>sql.NullInt32\<close> is a struct of an \<open>int32\<close> and the flag \<open>Valid\<close>,
  \<open>sql.NullString\<close> a struct of a string and the flag \<open>Valid\<close>.
\<close>

type_synonym go_int = "64 word"

datatype NullInt32 = NullInt32 (Int32: "32 word") (Valid: bool)

datatype NullString = NullString (String: string) (StringValid: bool)

text \<open>
  What reflection sees in one field of a struct: its dynamic type and its value.
  \<open>VOther t\<close> is a field of any other type, named \<open>t\<close> as \<open>%T\<close> prints it.
\<close>

datatype fval =
    VInt go_int
  | VNullInt32 NullInt32
  | VString string
  | VNullString NullString
  | VOther string

text \<open>A struct as reflection sees it: its fields in declaration order, by name.\<close>

type_synonym struct = "(string \<times> fval) list"

text \<open>
  Rows are reached through pointers (\<open>[]*Bookmark\<close>, ...) and mutated in place.
  A pointer is \<open>None\<close> (nil) or an address; the store gives the struct at each address.
\<close>

type_synonym addr = nat
type_synonym ptr = "addr option"
type_synonym heap = "addr \<Rightarrow> struct"

text \<open>\<open>map[int]int\<close>, from old ID to new ID.\<close>

type_synonym changes = "go_int \<rightharpoonup> go_int"

text \<open>The rows a slice of pointers shows in a store.\<close>

definition deref :: "heap \<Rightarrow> ptr list \<Rightarrow> struct option list" where
  "deref h s = map (map_option h) s"

definition FieldByName :: "struct \<Rightarrow> string \<Rightarrow> fval option" where
  "FieldByName st name = map_of st name"

fun set_field :: "struct \<Rightarrow> string \<Rightarrow> fval \<Rightarrow> struct" where
  "set_field [] name v = []"
| "set_field ((n, w) # st) name v =
     (if n = name then (n, v) # st else (n, w) # set_field st name v)"

section \<open>Bookmark\<close>

record Bookmark =
  BookmarkID :: go_int
  LocationID :: go_int
  PublicationLocationID :: go_int
  Slot :: go_int
  Title :: string
  Snippet :: NullString
  BlockType :: go_int
  BlockIdentifier :: NullInt32

text \<open>The zero value \<open>Bookmark{}\<close>.\<close>

definition Bookmark_zero :: Bookmark where
  "Bookmark_zero = \<lparr>BookmarkID = 0, LocationID = 0, PublicationLocationID = 0, Slot = 0,
     Title = [], Snippet = NullString [] False, BlockType = 0,
     BlockIdentifier = NullInt32 0 False\<rparr>"

text \<open>The fields of a \<open>Bookmark\<close> as reflection lists them.\<close>

definition Bookmark_struct :: "Bookmark \<Rightarrow> struct" where
  "Bookmark_struct m =
     [(''BookmarkID'', VInt (BookmarkID m)),
      (''LocationID'', VInt (LocationID m)),
      (''PublicationLocationID'', VInt (PublicationLocationID m)),
      (''Slot'', VInt (Slot m)),
      (''Title'', VString (Title m)),
      (''Snippet'', VNullString (Snippet m)),
      (''BlockType'', VInt (BlockType m)),
      (''BlockIdentifier'', VNullInt32 (BlockIdentifier m))]"

section \<open>UpdateIDs\<close>

text \<open>A panic carries its message.\<close>

type_synonym panic = string

text \<open>
  What an \<open>interface{}\<close> argument holds: a slice of pointers to structs, a pointer
  to such a slice, a struct value (as in the repository's test), or nothing at all.
\<close>

datatype iface = Slice "ptr list" | PtrToSlice "ptr list" | StructValue struct | NilInterface

text \<open>
  The body of the loop of \<open>UpdateIDs\<close> for one non-nil element: look the field up by
  name, switch on its type, and rewrite it when its value is a key of the map.
  An \<open>int32\<close> read through reflection is sign-extended (\<open>scast\<close>); \<open>SetInt\<close>
  on an \<open>int32\<close> keeps the low 32 bits (\<open>ucast\<close>).
\<close>

definition rewrite_field :: "string \<Rightarrow> changes \<Rightarrow> struct \<Rightarrow> panic + struct" where
  "rewrite_field IDName chg st =
     (case FieldByName st IDName of
        None \<Rightarrow> Inl (''Given struct does not contain field '' @ IDName)
      | Some (VInt n) \<Rightarrow>
          (case chg n of
             Some new \<Rightarrow> Inr (set_field st IDName (VInt new))
           | None \<Rightarrow> Inr st)
      | Some (VNullInt32 f) \<Rightarrow>
          (case chg (scast (Int32 f)) of
             Some new \<Rightarrow> Inr (set_field st IDName (VNullInt32 (NullInt32 (ucast new) (Valid f))))
           | None \<Rightarrow> Inr st)
      | Some (VString x) \<Rightarrow>
          Inl (''Type string of field '' @ IDName @ '' is not supported!'')
      | Some (VNullString x) \<Rightarrow>
          Inl (''Type sql.NullString of field '' @ IDName @ '' is not supported!'')
      | Some (VOther t) \<Rightarrow>
          Inl (''Type '' @ t @ '' of field '' @ IDName @ '' is not supported!''))"

text \<open>The loop over the slice: nil elements are skipped, a panic ends the call.\<close>

fun UpdateIDs_loop :: "ptr list \<Rightarrow> string \<Rightarrow> changes \<Rightarrow> heap \<Rightarrow> panic + heap" where
  "UpdateIDs_loop [] IDName chg h = Inr h"
| "UpdateIDs_loop (None # s) IDName chg h = UpdateIDs_loop s IDName chg h"
| "UpdateIDs_loop (Some a # s) IDName chg h =
     (case rewrite_field IDName chg (h a) of
        Inl p \<Rightarrow> Inl p
      | Inr st \<Rightarrow> UpdateIDs_loop s IDName chg (h(a := st)))"

text \<open>
  \<open>reflect.TypeOf(nil)\<close> is the nil \<open>Type\<close>, and calling \<open>Kind\<close> on it is a
  nil dereference, a panic of the runtime.
\<close>

definition UpdateIDs :: "iface \<Rightarrow> string \<Rightarrow> changes \<Rightarrow> heap \<Rightarrow> panic + heap" where
  "UpdateIDs mdl IDName chg h =
     (case mdl of
        Slice s \<Rightarrow> UpdateIDs_loop s IDName chg h
      | PtrToSlice s \<Rightarrow> Inl ''Only slices are supported!''
      | StructValue st \<Rightarrow> Inl ''Only slices are supported!''
      | NilInterface \<Rightarrow> Inl ''runtime error: invalid memory address or nil pointer dereference'')"


subsection \<open>Notions used to state the properties of UpdateIDs\<close>

text \<open>The field types the type switch of \<open>UpdateIDs\<close> accepts: \<open>int\<close> and \<open>sql.NullInt32\<close>.\<close>

fun rewritable :: "fval option \<Rightarrow> bool" where
  "rewritable (Some (VInt n)) = True"
| "rewritable (Some (VNullInt32 f)) = True"
| "rewritable v = False"

text \<open>An \<open>int\<close> that an \<open>int32\<close> holds exactly: storing it and reading it back gives it again.\<close>

definition int32_exact :: "go_int \<Rightarrow> bool" where
  "int32_exact v = (scast (ucast v :: 32 word) = v)"

text \<open>
  A map of changes none of whose new IDs is moved on by the map itself (a new ID is
  no key, or is mapped to itself), all new IDs being exact in an \<open>int32\<close>.
\<close>

definition settled :: "changes \<Rightarrow> bool" where
  "settled chg =
     (\<forall>k v. chg k = Some v \<longrightarrow> (chg v = None \<or> chg v = Some v) \<and> int32_exact v)"

subsection \<open>The inputs of the repository's tests\<close>

text \<open>\<open>TestUpdateIDs_Bookmarks\<close>: the left rows live at addresses 1 and 2, the right rows at 3 to 5.\<close>

definition test_left :: "ptr list" where
  "test_left = [None, Some 1, Some 2]"

definition test_right :: "ptr list" where
  "test_right = [None, Some 3, Some 4, Some 5]"

definition test_heap :: heap where
  "test_heap = (\<lambda>a. [])
     (1 := Bookmark_struct (Bookmark_zero\<lparr>BookmarkID := 1, Bookmark.LocationID := 1\<rparr>),
      2 := Bookmark_struct (Bookmark_zero\<lparr>BookmarkID := 2\<rparr>),
      3 := Bookmark_struct Bookmark_zero,
      4 := Bookmark_struct (Bookmark_zero\<lparr>BookmarkID := 2, Bookmark.LocationID := 5\<rparr>),
      5 := Bookmark_struct (Bookmark_zero\<lparr>BookmarkID := 3, Bookmark.LocationID := 1\<rparr>))"

definition test_changes_Left :: changes where
  "test_changes_Left = [1 \<mapsto> 5]"

definition test_changes_Right :: changes where
  "test_changes_Right = [1 \<mapsto> 2]"

text \<open>
  Modelled from the spec: the struct \<open>Note\<close> is missing from the sources. A note refers to
  its location by a nullable foreign key; the fields here are those that
  \<open>TestUpdateIDs_Notes\<close> sets: \<open>NoteID\<close>, the nullable \<open>LocationID\<close>, and \<open>BlockType\<close>.
\<close>

definition Note_struct :: "go_int \<Rightarrow> NullInt32 \<Rightarrow> go_int \<Rightarrow> struct" where
  "Note_struct nid loc bt =
     [(''NoteID'', VInt nid), (''LocationID'', VNullInt32 loc), (''BlockType'', VInt bt)]"

text \<open>One note whose \<open>LocationID\<close> is absent (\<open>Valid\<close> unset) with 1 in its numeric slot.\<close>

definition absent_heap :: heap where
  "absent_heap = (\<lambda>a. [])(1 := Note_struct 1 (NullInt32 1 False) 0)"

text \<open>A map that moves 1 to 2 and 2 to 3.\<close>

definition chain_changes :: changes where
  "chain_changes = [1 \<mapsto> 2, 2 \<mapsto> 3]"

definition chain_heap :: heap where
  "chain_heap = (\<lambda>a. [])(1 := Bookmark_struct (Bookmark_zero\<lparr>BookmarkID := 1, Bookmark.LocationID := 1\<rparr>))"


section \<open>Formatting integers\<close>

text \<open>
  \<open>strconv.FormatInt(i, 10)\<close>: the decimal digits of \<open>i\<close>, most significant first, after a
  minus sign when \<open>i\<close> is negative.
\<close>

function decimal :: "nat \<Rightarrow> string" where
  "decimal n =
     (if n < 10 then [''0123456789'' ! n]
      else decimal (n div 10) @ [''0123456789'' ! (n mod 10)])"
  by pat_completeness auto
termination
  by (relation "measure (\<lambda>n. n)") auto

declare decimal.simps [simp del]

definition FormatInt :: "int \<Rightarrow> string" where
  "FormatInt i = (if i < 0 then CHR ''-'' # decimal (nat (- i)) else decimal (nat i))"

section \<open>Location\<close>

record Location =
  LocationID :: go_int
  BookNumber :: NullInt32
  ChapterNumber :: NullInt32
  DocumentID :: NullInt32
  Track :: NullInt32
  IssueTagNumber :: go_int
  KeySymbol :: NullString
  MepsLanguage :: go_int
  LocationType :: go_int
  Title :: NullString

definition Location_zero :: Location where
  "Location_zero = \<lparr>LocationID = 0, BookNumber = NullInt32 0 False,
     ChapterNumber = NullInt32 0 False, DocumentID = NullInt32 0 False,
     Track = NullInt32 0 False, IssueTagNumber = 0, KeySymbol = NullString [] False,
     MepsLanguage = 0, LocationType = 0, Title = NullString [] False\<rparr>"

definition Location_ID :: "Location \<Rightarrow> go_int" where
  "Location_ID m = Location.LocationID m"

definition Location_SetID :: "go_int \<Rightarrow> Location \<Rightarrow> Location" where
  "Location_SetID id' m = m\<lparr>Location.LocationID := id'\<rparr>"

text \<open>
  \<open>UniqueKey\<close> writes eight pieces into a \<open>strings.Builder\<close>, an underscore between
  them. The \<open>Int32\<close> of a nullable number and the \<open>String\<close> of \<open>KeySymbol\<close> are read
  without a look at \<open>Valid\<close>.
\<close>

definition Location_UniqueKey :: "Location \<Rightarrow> string" where
  "Location_UniqueKey m =
     FormatInt (sint (Int32 (BookNumber m))) @ ''_'' @
     FormatInt (sint (Int32 (ChapterNumber m))) @ ''_'' @
     FormatInt (sint (Int32 (DocumentID m))) @ ''_'' @
     FormatInt (sint (Int32 (Track m))) @ ''_'' @
     FormatInt (sint (IssueTagNumber m)) @ ''_'' @
     String (KeySymbol m) @ ''_'' @
     FormatInt (sint (MepsLanguage m)) @ ''_'' @
     FormatInt (sint (LocationType m))"

section \<open>Bookmark methods\<close>

definition Bookmark_ID :: "Bookmark \<Rightarrow> go_int" where
  "Bookmark_ID m = BookmarkID m"

definition Bookmark_SetID :: "go_int \<Rightarrow> Bookmark \<Rightarrow> Bookmark" where
  "Bookmark_SetID id' m = m\<lparr>BookmarkID := id'\<rparr>"

definition Bookmark_UniqueKey :: "Bookmark \<Rightarrow> string" where
  "Bookmark_UniqueKey m =
     FormatInt (sint (PublicationLocationID m)) @ ''_'' @ FormatInt (sint (Slot m))"

section \<open>UserMark\<close>

text \<open>
  Modelled from the spec: the struct \<open>UserMark\<close> is missing from the sources. Its fields
  are the ID and the colorIndex, locationId, styleIndex, guid and version of the
  specification's table, under the names \<open>TestUserMark_Equals\<close> gives them.
\<close>

record UserMark =
  UserMarkID :: go_int
  ColorIndex :: go_int
  LocationID :: go_int
  StyleIndex :: go_int
  UserMarkGUID :: string
  Version :: go_int

section \<open>Equals\<close>

text \<open>
  What a \<open>Model\<close> interface value holds when \<open>Equals\<close> receives it: nothing, or a pointer
  to a row of one of the tables (given here by the row it points to).
\<close>

datatype Model =
    NilModel
  | BookmarkModel Bookmark
  | LocationModel Location
  | UserMarkModel UserMark
  | OtherModel struct

definition Location_Equals :: "Location \<Rightarrow> Model \<Rightarrow> bool" where
  "Location_Equals m m2 = False"

definition Bookmark_Equals :: "Bookmark \<Rightarrow> Model \<Rightarrow> bool" where
  "Bookmark_Equals m m2 =
     (case m2 of
        BookmarkModel b \<Rightarrow>
          Bookmark.LocationID m = Bookmark.LocationID b \<and>
          PublicationLocationID m = PublicationLocationID b \<and>
          Slot m = Slot b \<and>
          Bookmark.Title m = Bookmark.Title b \<and>
          Snippet m = Snippet b \<and>
          BlockType m = BlockType b \<and>
          BlockIdentifier m = BlockIdentifier b
      | _ \<Rightarrow> False)"


text \<open>The three marks of \<open>TestUserMark_Equals\<close>.\<close>

definition test_m1 :: UserMark where
  "test_m1 = \<lparr>UserMarkID = 1, ColorIndex = 1, LocationID = 1, StyleIndex = 1,
     UserMarkGUID = ''FIRST'', Version = 1\<rparr>"




subsection \<open>The key of a Location in the words of the specification\<close>

text \<open>Strings joined with a separator between them.\<close>

fun join :: "string \<Rightarrow> string list \<Rightarrow> string" where
  "join sep [] = []"
| "join sep [x] = x"
| "join sep (x # y # ys) = x @ sep @ join sep (y # ys)"

text \<open>A nullable number that "contributes its zero when absent".\<close>

definition present_or_zero :: "NullInt32 \<Rightarrow> 32 word" where
  "present_or_zero f = (if Valid f then Int32 f else 0)"

text \<open>
  The key as the specification words it (this definition follows the specification, not
  the code): book number, chapter number, document id, track, issue tag, key symbol,
  language and location type, joined with underscores, an absent nullable number
  counting as 0.
\<close>

definition UniqueKey_spec :: "Location \<Rightarrow> string" where
  "UniqueKey_spec m =
     join ''_''
       [FormatInt (sint (present_or_zero (BookNumber m))),
        FormatInt (sint (present_or_zero (ChapterNumber m))),
        FormatInt (sint (present_or_zero (DocumentID m))),
        FormatInt (sint (present_or_zero (Track m))),
        FormatInt (sint (IssueTagNumber m)),
        String (KeySymbol m),
        FormatInt (sint (MepsLanguage m)),
        FormatInt (sint (LocationType m))]"

text \<open>A location whose nullable numbers hold 0 whenever they are absent, as \<open>Scan\<close> leaves them.\<close>

definition absent_are_zero :: "Location \<Rightarrow> bool" where
  "absent_are_zero m =
     (\<forall>f \<in> {BookNumber m, ChapterNumber m, DocumentID m, Track m}. \<not> Valid f \<longrightarrow> Int32 f = 0)"

text \<open>Genesis 3 in a Bible, and a location whose absent book number has 7 in its slot.\<close>

definition genesis3 :: Location where
  "genesis3 = Location_zero\<lparr>Location.LocationID := 4, BookNumber := NullInt32 1 True,
     ChapterNumber := NullInt32 3 True, KeySymbol := NullString ''nwt'' True,
     MepsLanguage := 2, Location.Title := NullString ''Genesis 3'' True\<rparr>"

definition stale_location :: Location where
  "stale_location = Location_zero\<lparr>BookNumber := NullInt32 7 False\<rparr>"


section \<open>The deduplication of Locations\<close>

text \<open>\<open>merger.LeftSide\<close> and \<open>merger.RightSide\<close>: the side a row comes from.\<close>

datatype side = LeftSide | RightSide

text \<open>The non-nil rows of a list, in order.\<close>

definition present :: "'r option list \<Rightarrow> 'r list" where
  "present xs = map the (filter (\<lambda>x. x \<noteq> None) xs)"

text \<open>
  Modelled from the spec: the merge skeleton and \<open>MergeLocations\<close> are missing from the
  sources. Step 1 of the skeleton: the non-nil rows of both sides in one working list,
  each with the side it comes from (its original ID is in the row), the left rows first.
\<close>

definition working_list :: "'r option list \<Rightarrow> 'r option list \<Rightarrow> (side \<times> 'r) list" where
  "working_list l r = map (Pair LeftSide) (present l) @ map (Pair RightSide) (present r)"

text \<open>
  Modelled from the spec: step 2 of the skeleton, missing from the sources. The group of a
  key is made of the rows of the working list that have this UniqueKey.
\<close>

definition group_of :: "('r \<Rightarrow> string) \<Rightarrow> string \<Rightarrow> (side \<times> 'r) list \<Rightarrow> (side \<times> 'r) list" where
  "group_of key k w = filter (\<lambda>x. key (snd x) = k) w"

text \<open>
  Modelled from the spec: the test of step 3 of the skeleton, missing from the sources,
  for the tables that have conflicts: the duplicates of a group are emitted as one row
  "if all duplicates are pairwise structurally equal", and are a disagreement otherwise.
\<close>

fun pairwise_equal :: "('r \<Rightarrow> 'r \<Rightarrow> bool) \<Rightarrow> 'r list \<Rightarrow> bool" where
  "pairwise_equal eq [] = True"
| "pairwise_equal eq (x # xs) = (list_all (eq x) xs \<and> pairwise_equal eq xs)"

text \<open>
  Modelled from the spec: step 3 of the skeleton for the Locations, missing from the
  sources. Locations are never in conflict: any two rows that share the UniqueKey are
  treated as equal, and duplicates collapse silently. Each group emits one
  representative, the left one when it has one: the first row of the group in the working
  list. \<open>seen\<close> are the keys that have their representative.
\<close>

fun representatives :: "('a \<Rightarrow> string) \<Rightarrow> string list \<Rightarrow> 'a list \<Rightarrow> 'a list" where
  "representatives key seen [] = []"
| "representatives key seen (x # w) =
     (if key x \<in> set seen then representatives key seen w
      else x # representatives key (key x # seen) w)"

text \<open>
  Modelled from the spec: the survivors of \<open>MergeLocations\<close>, which is missing from the
  sources, before they are sorted and renumbered: the representatives of the groups of
  the working list of the two sides, by the UniqueKey of the Locations.
\<close>

definition Location_survivors ::
  "Location option list \<Rightarrow> Location option list \<Rightarrow> (side \<times> Location) list" where
  "Location_survivors l r =
     representatives (\<lambda>x. Location_UniqueKey (snd x)) [] (working_list l r)"

text \<open>Genesis 3 again, as the other side has it: another ID and another title.\<close>

definition genesis3_retitled :: Location where
  "genesis3_retitled =
     genesis3\<lparr>Location.LocationID := 9, Location.Title := NullString ''Gen. 3'' True\<rparr>"

section \<open>sortByUniqueKey\<close>

text \<open>
  The methods \<open>ID\<close>, \<open>SetID\<close> and \<open>UniqueKey\<close> that reflection finds by name on the
  elements of the slice, for rows of a type \<open>'r\<close>.
\<close>

record 'r methods =
  ID :: "'r \<Rightarrow> go_int"
  SetID :: "go_int \<Rightarrow> 'r \<Rightarrow> 'r"
  UniqueKey :: "'r \<Rightarrow> string"

definition Location_methods :: "Location methods" where
  "Location_methods = \<lparr>ID = Location_ID, SetID = Location_SetID, UniqueKey = Location_UniqueKey\<rparr>"

definition Bookmark_methods :: "Bookmark methods" where
  "Bookmark_methods = \<lparr>ID = Bookmark_ID, SetID = Bookmark_SetID, UniqueKey = Bookmark_UniqueKey\<rparr>"

text \<open>
  The comparison handed to \<open>sort.Slice\<close>: nil is smaller than every row, and rows are
  compared by their keys as strings (byte by byte, a proper prefix first).
\<close>

definition less_by_key :: "'r methods \<Rightarrow> (addr \<Rightarrow> 'r) \<Rightarrow> ptr \<Rightarrow> ptr \<Rightarrow> bool" where
  "less_by_key M h p q =
     (case q of
        None \<Rightarrow> False
      | Some b \<Rightarrow>
          (case p of
             None \<Rightarrow> True
           | Some a \<Rightarrow> UniqueKey M (h a) < UniqueKey M (h b)))"

text \<open>
  \<open>sort.Slice\<close> belongs to Go's library and is not stable; it is a parameter here. What is
  assumed of it is that it sorts: its result is a permutation of the slice in which no
  element is smaller than an earlier one.
\<close>

type_synonym sorter = "(ptr \<Rightarrow> ptr \<Rightarrow> bool) \<Rightarrow> ptr list \<Rightarrow> ptr list"

definition sorts :: "sorter \<Rightarrow> (ptr \<Rightarrow> ptr \<Rightarrow> bool) \<Rightarrow> ptr list \<Rightarrow> bool" where
  "sorts srt lt s =
     (mset (srt lt s) = mset s \<and> sorted_wrt (\<lambda>p q. \<not> lt q p) (srt lt s))"

text \<open>Sorting by insertion, one sorter to run the function with.\<close>

fun insert_less :: "('a \<Rightarrow> 'a \<Rightarrow> bool) \<Rightarrow> 'a \<Rightarrow> 'a list \<Rightarrow> 'a list" where
  "insert_less lt x [] = [x]"
| "insert_less lt x (y # ys) =
     (if lt x y then x # y # ys else y # insert_less lt x ys)"

definition insertion_sort :: "('a \<Rightarrow> 'a \<Rightarrow> bool) \<Rightarrow> 'a list \<Rightarrow> 'a list" where
  "insertion_sort lt xs = foldr (insert_less lt) xs []"

text \<open>
  The last loop: from index \<open>i\<close> on, every row whose ID is not its index is entered into
  the map under its old ID and gets its index as ID.
\<close>

fun renumber ::
  "'r methods \<Rightarrow> nat \<Rightarrow> ptr list \<Rightarrow> changes \<times> (addr \<Rightarrow> 'r) \<Rightarrow> changes \<times> (addr \<Rightarrow> 'r)" where
  "renumber M i [] (chg, h) = (chg, h)"
| "renumber M i (None # s) (chg, h) = renumber M (Suc i) s (chg, h)"
| "renumber M i (Some a # s) (chg, h) =
     (let oldID = ID M (h a) in
      if oldID \<noteq> of_nat i
      then renumber M (Suc i) s (chg(oldID \<mapsto> of_nat i), h(a := SetID M (of_nat i) (h a)))
      else renumber M (Suc i) s (chg, h))"

text \<open>
  The function: sort, keep one of the leading nils, renumber. Its argument must be a
  pointer to a slice; the slice it points to afterwards is part of the result.
\<close>

definition sortByUniqueKey ::
  "sorter \<Rightarrow> 'r methods \<Rightarrow> iface \<Rightarrow> (addr \<Rightarrow> 'r) \<Rightarrow>
   panic + (changes \<times> ptr list \<times> (addr \<Rightarrow> 'r))" where
  "sortByUniqueKey srt M arg h =
     (case arg of
        PtrToSlice s \<Rightarrow>
          (let s1 = srt (less_by_key M h) s;
               nilCount = length (filter (\<lambda>p. p = None) s1);
               s' = (if nilCount > 1 then drop (nilCount - 1) s1 else s1);
               (chg, h') = renumber M 0 s' (Map.empty, h)
           in Inr (chg, s', h'))
      | Slice s \<Rightarrow> Inl ''Only pointer to slice is supported''
      | StructValue st \<Rightarrow> Inl ''Only pointer to slice is supported''
      | NilInterface \<Rightarrow> Inl ''runtime error: invalid memory address or nil pointer dereference'')"

text \<open>The addresses of the rows of a slice, in order.\<close>

definition rows :: "ptr list \<Rightarrow> addr list" where
  "rows s = map the (filter (\<lambda>p. p \<noteq> None) s)"






section \<open>The driver of the merge\<close>

text \<open>
  Modelled from the spec: the struct \<open>model.Database\<close> is missing from the sources. A
  snapshot is a collection of row lists, one per table; the fields are those the driver
  reads and writes.
\<close>

record Database =
  Location :: "ptr list"
  Bookmark :: "ptr list"
  Tag :: "ptr list"
  TagMap :: "ptr list"
  UserMark :: "ptr list"
  BlockRange :: "ptr list"
  Note :: "ptr list"

datatype tbl = LocationT | BookmarkT | TagT | TagMapT | UserMarkT | BlockRangeT | NoteT

definition table_of :: "tbl \<Rightarrow> Database \<Rightarrow> ptr list" where
  "table_of t db =
     (case t of
        LocationT \<Rightarrow> Location db
      | BookmarkT \<Rightarrow> Bookmark db
      | TagT \<Rightarrow> Tag db
      | TagMapT \<Rightarrow> TagMap db
      | UserMarkT \<Rightarrow> UserMark db
      | BlockRangeT \<Rightarrow> BlockRange db
      | NoteT \<Rightarrow> Note db)"

text \<open>
  Modelled from the spec: the type \<open>merger.IDChanges\<close> is missing from the sources. It is
  two mappings, \<open>Left\<close> and \<open>Right\<close>, from old IDs to new IDs, as the test of
  \<open>UpdateIDs\<close> builds it.
\<close>

record IDChanges =
  Left :: changes
  Right :: changes

text \<open>
  What a merge function returns: its results (\<open>err == nil\<close>), a \<open>MergeConflictError\<close> with its
  conflicts, or another error.
\<close>

datatype ('c, 'r) outcome = Merged 'r | MergeConflictError 'c | OtherError

text \<open>
  The functions of package \<open>merger\<close> and the dialogue with the user are not among the
  sources; the driver takes them as parameters. \<open>'c\<close> are the conflicts a merge reports,
  \<open>'s\<close> the solutions it accepts, \<open>'u\<close> what the user enters in one dialogue. Every
  function may change the store. \<open>handleMergeConflict\<close> gives no solution when the user
  interrupts or the prompt fails.
\<close>

record ('c, 's, 'u) merger =
  MergeLocations :: "ptr list \<Rightarrow> ptr list \<Rightarrow> heap \<Rightarrow> (ptr list \<times> IDChanges) \<times> heap"
  MergeBookmarks ::
    "ptr list \<Rightarrow> ptr list \<Rightarrow> 's option \<Rightarrow> heap \<Rightarrow> ('c, ptr list \<times> IDChanges) outcome \<times> heap"
  MergeTags ::
    "ptr list \<Rightarrow> ptr list \<Rightarrow> 's option \<Rightarrow> heap \<Rightarrow> ('c, ptr list \<times> IDChanges) outcome \<times> heap"
  MergeTagMaps ::
    "ptr list \<Rightarrow> ptr list \<Rightarrow> 's option \<Rightarrow> heap \<Rightarrow> ('c, ptr list \<times> IDChanges) outcome \<times> heap"
  MergeUserMarkAndBlockRange ::
    "ptr list \<Rightarrow> ptr list \<Rightarrow> ptr list \<Rightarrow> ptr list \<Rightarrow> 's option \<Rightarrow> heap \<Rightarrow>
     ('c, ptr list \<times> ptr list \<times> IDChanges) outcome \<times> heap"
  MergeNotes ::
    "ptr list \<Rightarrow> ptr list \<Rightarrow> 's option \<Rightarrow> heap \<Rightarrow> ('c, ptr list \<times> IDChanges) outcome \<times> heap"
  merger_UpdateIDs :: "iface \<Rightarrow> iface \<Rightarrow> string \<Rightarrow> IDChanges \<Rightarrow> heap \<Rightarrow> panic + heap"
  handleMergeConflict :: "'c \<Rightarrow> 'u \<Rightarrow> 's option"

text \<open>
  Modelled from the spec: \<open>merger.UpdateIDs\<close> (the FK rewrite of the two sides) is missing
  from the sources. It rewrites the named field across the left list by the \<open>Left\<close> map of
  the changes and across the right list by the \<open>Right\<close> map, each with \<open>UpdateIDs\<close> of
  package \<open>model\<close>.
\<close>

definition UpdateIDs_both :: "iface \<Rightarrow> iface \<Rightarrow> string \<Rightarrow> IDChanges \<Rightarrow> heap \<Rightarrow> panic + heap" where
  "UpdateIDs_both l r IDName chg h =
     (case UpdateIDs l IDName (Left chg) h of
        Inl p \<Rightarrow> Inl p
      | Inr h1 \<Rightarrow> UpdateIDs r IDName (Right chg) h1)"

text \<open>
  The state of the driver after the two imports: the store, the two sides, the result so
  far, and what the user will still enter.
\<close>

record 'u state =
  heap :: heap
  left :: Database
  right :: Database
  merged :: Database
  input :: "'u list"

text \<open>
  To state in which order things happen, the model records the calls the driver makes:
  every call of a merge function, every merge that has returned without error, and every
  call of \<open>merger.UpdateIDs\<close> with the lists it is given, the field, and the merge whose
  changes it applies.
\<close>

datatype arg = LeftList tbl | RightList tbl | MergedList tbl | NilArg

datatype event =
    MergeCall tbl
  | MergeDone tbl
  | UpdateIDsCall arg arg string tbl

definition list_of :: "'u state \<Rightarrow> arg \<Rightarrow> iface" where
  "list_of st a =
     (case a of
        LeftList t \<Rightarrow> Slice (table_of t (left st))
      | RightList t \<Rightarrow> Slice (table_of t (right st))
      | MergedList t \<Rightarrow> Slice (table_of t (merged st))
      | NilArg \<Rightarrow> NilInterface)"

text \<open>
  A step gives the calls it made and the state after it, or no state when the run has
  ended in it (\<open>log.Fatal\<close>, a panic, an interrupt).
\<close>

type_synonym 'a step = "event list \<times> 'a option"

definition and_then :: "'a step \<Rightarrow> ('a \<Rightarrow> 'b step) \<Rightarrow> 'b step" where
  "and_then r f =
     (case r of
        (tr, None) \<Rightarrow> (tr, None)
      | (tr, Some a) \<Rightarrow> (case f a of (tr', r') \<Rightarrow> (tr @ tr', r')))"

definition call_UpdateIDs ::
  "('c, 's, 'u) merger \<Rightarrow> arg \<Rightarrow> arg \<Rightarrow> string \<Rightarrow> tbl \<Rightarrow> IDChanges \<Rightarrow> 'u state \<Rightarrow> 'u state step" where
  "call_UpdateIDs P l r IDName src chg st =
     ([UpdateIDsCall l r IDName src],
      case merger_UpdateIDs P (list_of st l) (list_of st r) IDName chg (heap st) of
        Inl p \<Rightarrow> None
      | Inr h' \<Rightarrow> Some (st\<lparr>heap := h'\<rparr>))"

text \<open>
  The loop around a merge: call it with the solution at hand; on success leave the loop;
  on a conflict ask the user and call again; on another error stop. The user's entries
  are a finite list, and the prompt fails when it is used up.
\<close>

fun retry ::
  "('s option \<Rightarrow> heap \<Rightarrow> ('c, 'r) outcome \<times> heap) \<Rightarrow> ('c \<Rightarrow> 'u \<Rightarrow> 's option) \<Rightarrow> tbl \<Rightarrow>
   'u list \<Rightarrow> 's option \<Rightarrow> heap \<Rightarrow> ('r \<times> heap \<times> 'u list) step" where
  "retry f ask t us sol h =
     (case f sol h of
        (Merged r, h') \<Rightarrow> ([MergeCall t, MergeDone t], Some (r, h', us))
      | (OtherError, h') \<Rightarrow> ([MergeCall t], None)
      | (MergeConflictError c, h') \<Rightarrow>
          (case us of
             [] \<Rightarrow> ([MergeCall t], None)
           | u # us' \<Rightarrow>
               (case ask c u of
                  None \<Rightarrow> ([MergeCall t], None)
                | Some sol' \<Rightarrow>
                    (case retry f ask t us' (Some sol') h' of
                       (tr, r) \<Rightarrow> (MergeCall t # tr, r)))))"

declare retry.simps [simp del]

text \<open>"Merging Locations": the error of \<open>MergeLocations\<close> is not looked at.\<close>

definition locations_step :: "('c, 's, 'u) merger \<Rightarrow> 'u state \<Rightarrow> 'u state step" where
  "locations_step P st =
     (case MergeLocations P (Location (left st)) (Location (right st)) (heap st) of
        ((mergedLocations, locationIDChanges), h') \<Rightarrow>
          and_then ([MergeCall LocationT, MergeDone LocationT],
                    Some (st\<lparr>heap := h', merged := (merged st)\<lparr>Location := mergedLocations\<rparr>\<rparr>))
          (\<lambda>st. and_then (call_UpdateIDs P (LeftList BookmarkT) (RightList BookmarkT)
                            ''LocationID'' LocationT locationIDChanges st)
          (\<lambda>st. and_then (call_UpdateIDs P (LeftList BookmarkT) (RightList BookmarkT)
                            ''PublicationLocationID'' LocationT locationIDChanges st)
          (\<lambda>st. and_then (call_UpdateIDs P (LeftList NoteT) (RightList NoteT)
                            ''LocationID'' LocationT locationIDChanges st)
          (\<lambda>st. call_UpdateIDs P (LeftList TagMapT) (RightList TagMapT)
                            ''LocationID'' LocationT locationIDChanges st)))))"

text \<open>"Merging Bookmarks".\<close>

definition bookmarks_step :: "('c, 's, 'u) merger \<Rightarrow> 'u state \<Rightarrow> 'u state step" where
  "bookmarks_step P st =
     and_then (retry (MergeBookmarks P (Bookmark (left st)) (Bookmark (right st)))
                 (handleMergeConflict P) BookmarkT (input st) None (heap st))
       (\<lambda>((mergedBookmarks, changes), h', us).
          ([], Some (st\<lparr>heap := h', input := us,
                        merged := (merged st)\<lparr>Bookmark := mergedBookmarks\<rparr>\<rparr>)))"

text \<open>"Merging Tags".\<close>

definition tags_step :: "('c, 's, 'u) merger \<Rightarrow> 'u state \<Rightarrow> 'u state step" where
  "tags_step P st =
     and_then (retry (MergeTags P (Tag (left st)) (Tag (right st)))
                 (handleMergeConflict P) TagT (input st) None (heap st))
       (\<lambda>((mergedTags, tagIDChanges), h', us).
          call_UpdateIDs P (LeftList TagMapT) (RightList TagMapT) ''TagID'' TagT tagIDChanges
            (st\<lparr>heap := h', input := us, merged := (merged st)\<lparr>Tag := mergedTags\<rparr>\<rparr>))"

text \<open>"Merging TagMaps".\<close>

definition tagmaps_step :: "('c, 's, 'u) merger \<Rightarrow> 'u state \<Rightarrow> 'u state step" where
  "tagmaps_step P st =
     and_then (retry (MergeTagMaps P (TagMap (left st)) (TagMap (right st)))
                 (handleMergeConflict P) TagMapT (input st) None (heap st))
       (\<lambda>((mergedTagMaps, changes), h', us).
          ([], Some (st\<lparr>heap := h', input := us,
                        merged := (merged st)\<lparr>TagMap := mergedTagMaps\<rparr>\<rparr>)))"

text \<open>"Merging UserMarks & BlockRanges".\<close>

definition usermarks_step :: "('c, 's, 'u) merger \<Rightarrow> 'u state \<Rightarrow> 'u state step" where
  "usermarks_step P st =
     and_then (retry (MergeUserMarkAndBlockRange P (UserMark (left st)) (BlockRange (left st))
                        (UserMark (right st)) (BlockRange (right st)))
                 (handleMergeConflict P) UserMarkT (input st) None (heap st))
       (\<lambda>((mergedUserMarks, mergedBlockRanges, userMarkIDChanges), h', us).
          call_UpdateIDs P (LeftList NoteT) (RightList NoteT) ''UserMarkID'' UserMarkT
            userMarkIDChanges
            (st\<lparr>heap := h', input := us,
                merged := (merged st)\<lparr>UserMark := mergedUserMarks,
                                         BlockRange := mergedBlockRanges\<rparr>\<rparr>))"

text \<open>"Merging Notes".\<close>

definition notes_step :: "('c, 's, 'u) merger \<Rightarrow> 'u state \<Rightarrow> 'u state step" where
  "notes_step P st =
     and_then (retry (MergeNotes P (Note (left st)) (Note (right st)))
                 (handleMergeConflict P) NoteT (input st) None (heap st))
       (\<lambda>((mergedNotes, notesIDChanges), h', us).
          call_UpdateIDs P (MergedList TagMapT) NilArg ''NoteID'' NoteT notesIDChanges
            (st\<lparr>heap := h', input := us, merged := (merged st)\<lparr>Note := mergedNotes\<rparr>\<rparr>))"

text \<open>
  \<open>merge\<close>, between the import of the two backups and the export of the result: the six
  steps in the order of the source.
\<close>

definition merge :: "('c, 's, 'u) merger \<Rightarrow> 'u state \<Rightarrow> 'u state step" where
  "merge P st =
     and_then (locations_step P st)
     (\<lambda>st. and_then (bookmarks_step P st)
     (\<lambda>st. and_then (tags_step P st)
     (\<lambda>st. and_then (tagmaps_step P st)
     (\<lambda>st. and_then (usermarks_step P st)
     (\<lambda>st. notes_step P st)))))"

text \<open>The calls made before the first occurrence of a call.\<close>

definition before :: "event \<Rightarrow> event list \<Rightarrow> event list" where
  "before e tr = takeWhile (\<lambda>x. x \<noteq> e) tr"

subsection \<open>One run of the driver\<close>

text \<open>The fields of a \<^typ>\<open>UserMark\<close> as reflection lists them.\<close>

definition UserMark_struct :: "UserMark \<Rightarrow> struct" where
  "UserMark_struct m =
     [(''UserMarkID'', VInt (UserMarkID m)),
      (''ColorIndex'', VInt (ColorIndex m)),
      (''LocationID'', VInt (UserMark.LocationID m)),
      (''StyleIndex'', VInt (StyleIndex m)),
      (''UserMarkGUID'', VString (UserMarkGUID m)),
      (''Version'', VInt (Version m))]"

text \<open>
  Merge functions to run the driver with: each keeps the left list; the merge of the
  locations reports that the location 1 of the left side has become 5.
\<close>

definition no_changes :: IDChanges where
  "no_changes = \<lparr>Left = Map.empty, Right = Map.empty\<rparr>"

definition keep_left :: "(unit, unit, unit) merger" where
  "keep_left =
     \<lparr>MergeLocations = (\<lambda>l r h. ((l, \<lparr>Left = [1 \<mapsto> 5], Right = Map.empty\<rparr>), h)),
      MergeBookmarks = (\<lambda>l r sol h. (Merged (l, no_changes), h)),
      MergeTags = (\<lambda>l r sol h. (Merged (l, no_changes), h)),
      MergeTagMaps = (\<lambda>l r sol h. (Merged (l, no_changes), h)),
      MergeUserMarkAndBlockRange = (\<lambda>l lb r rb sol h. (Merged (l, lb, no_changes), h)),
      MergeNotes = (\<lambda>l r sol h. (Merged (l, no_changes), h)),
      merger_UpdateIDs = UpdateIDs_both,
      handleMergeConflict = (\<lambda>c u. None)\<rparr>"

text \<open>
  A left side with one bookmark (at address 1) and one highlight (at address 2), both at
  the location 1, and an empty right side.
\<close>

definition empty_db :: Database where
  "empty_db = \<lparr>Location = [None], Bookmark = [None], Tag = [None], TagMap = [None],
     UserMark = [None], BlockRange = [None], Note = [None]\<rparr>"

definition run_state :: "unit state" where
  "run_state =
     \<lparr>heap = (\<lambda>a. [])
        (1 := Bookmark_struct (Bookmark_zero\<lparr>BookmarkID := 1, Bookmark.LocationID := 1\<rparr>),
         2 := UserMark_struct (test_m1\<lparr>UserMark.LocationID := 1\<rparr>)),
      left = empty_db\<lparr>Bookmark := [None, Some 1], UserMark := [None, Some 2]\<rparr>,
      right = empty_db,
      merged = \<lparr>Location = [], Bookmark = [], Tag = [], TagMap = [], UserMark = [],
                 BlockRange = [], Note = []\<rparr>,
      input = []\<rparr>"

subsection \<open>The calls of each step\<close>

text \<open>The calls of the first step when nothing stops it.\<close>

definition locations_calls :: "event list" where
  "locations_calls =
     [MergeCall LocationT, MergeDone LocationT,
      UpdateIDsCall (LeftList BookmarkT) (RightList BookmarkT) ''LocationID'' LocationT,
      UpdateIDsCall (LeftList BookmarkT) (RightList BookmarkT) ''PublicationLocationID'' LocationT,
      UpdateIDsCall (LeftList NoteT) (RightList NoteT) ''LocationID'' LocationT,
      UpdateIDsCall (LeftList TagMapT) (RightList TagMapT) ''LocationID'' LocationT]"

text \<open>The calls of a loop that succeeds after \<open>n\<close> conflicts, followed by the calls \<open>us\<close>.\<close>

definition loop_calls :: "tbl \<Rightarrow> nat \<Rightarrow> event list \<Rightarrow> event list" where
  "loop_calls t n us = replicate (Suc n) (MergeCall t) @ MergeDone t # us"

definition bookmarks_calls :: "nat \<Rightarrow> event list" where
  "bookmarks_calls n = loop_calls BookmarkT n []"

definition tags_calls :: "nat \<Rightarrow> event list" where
  "tags_calls n =
     loop_calls TagT n [UpdateIDsCall (LeftList TagMapT) (RightList TagMapT) ''TagID'' TagT]"

definition tagmaps_calls :: "nat \<Rightarrow> event list" where
  "tagmaps_calls n = loop_calls TagMapT n []"

definition usermarks_calls :: "nat \<Rightarrow> event list" where
  "usermarks_calls n =
     loop_calls UserMarkT n [UpdateIDsCall (LeftList NoteT) (RightList NoteT) ''UserMarkID'' UserMarkT]"

definition notes_calls :: "nat \<Rightarrow> event list" where
  "notes_calls n =
     loop_calls NoteT n [UpdateIDsCall (MergedList TagMapT) NilArg ''NoteID'' NoteT]"

text \<open>
  A step has run with the calls \<open>full\<close> ahead of it: it made some first part of them, and
  all of them if the run goes on after it.
\<close>

definition made :: "event list \<Rightarrow> 'a step \<Rightarrow> bool" where
  "made full s = (fst s \<noteq> [] \<and> prefix (fst s) full \<and> (snd s \<noteq> None \<longrightarrow> fst s = full))"

text \<open>The calls of a whole run in which the five loops meet \<open>n2\<close>, ..., \<open>n6\<close> conflicts.\<close>

definition all_calls :: "nat \<Rightarrow> nat \<Rightarrow> nat \<Rightarrow> nat \<Rightarrow> nat \<Rightarrow> event list" where
  "all_calls n2 n3 n4 n5 n6 =
     locations_calls @ bookmarks_calls n2 @ tags_calls n3 @ tagmaps_calls n4 @
     usermarks_calls n5 @ notes_calls n6"


section \<open>Properties of UpdateIDs\<close>

subsection \<open>Fields of a struct\<close>

lemma FieldByName_set_field_same:
  "FieldByName st name = Some w \<Longrightarrow> FieldByName (set_field st name v) name = Some v"
  by (induction st) (auto simp: FieldByName_def split: if_splits)

lemma FieldByName_set_field_other:
  "name' \<noteq> name \<Longrightarrow> FieldByName (set_field st name v) name' = FieldByName st name'"
  by (induction st) (auto simp: FieldByName_def)

lemma set_field_idem:
  "set_field (set_field st name v) name w = set_field st name w"
  by (induction st) auto

lemma set_field_same:
  "FieldByName st name = Some v \<Longrightarrow> set_field st name v = st"
  by (induction st) (auto simp: FieldByName_def split: if_splits)

lemma UpdateIDs_loop_frame:
  "UpdateIDs_loop s name chg h = Inr h' \<Longrightarrow> Some a \<notin> set s \<Longrightarrow> h' a = h a"
proof (induction s arbitrary: h)
  case Nil
  then show ?case by simp
next
  case (Cons p s)
  show ?case
  proof (cases p)
    case None
    with Cons show ?thesis by simp
  next
    case (Some b)
    with Cons.prems obtain st where st: "rewrite_field name chg (h b) = Inr st"
      and run: "UpdateIDs_loop s name chg (h(b := st)) = Inr h'"
      by (auto split: sum.splits)
    from Cons.prems Some have "a \<noteq> b" and "Some a \<notin> set s" by auto
    with Cons.IH [OF run] show ?thesis by simp
  qed
qed


subsection \<open>One element of the loop\<close>

lemma rewrite_field_Inr_iff:
  "(\<exists>st'. rewrite_field name chg st = Inr st') = rewritable (FieldByName st name)"
  by (cases "(FieldByName st name)" rule: rewritable.cases)
     (auto simp: rewrite_field_def split: option.splits)

lemma rewrite_field_nullable:
  "FieldByName st name = Some (VNullInt32 (NullInt32 n b)) \<Longrightarrow>
   rewrite_field name chg st =
     Inr (case chg (scast n) of None \<Rightarrow> st
          | Some new \<Rightarrow> set_field st name (VNullInt32 (NullInt32 (ucast new) b)))"
  by (simp add: rewrite_field_def split: option.splits)

lemma rewrite_field_int:
  "FieldByName st name = Some (VInt n) \<Longrightarrow>
   rewrite_field name chg st =
     Inr (case chg n of None \<Rightarrow> st | Some new \<Rightarrow> set_field st name (VInt new))"
  by (simp add: rewrite_field_def split: option.splits)

lemma rewritable_cases:
  "rewritable v \<Longrightarrow> (\<exists>n. v = Some (VInt n)) \<or> (\<exists>n b. v = Some (VNullInt32 (NullInt32 n b)))"
proof (cases v rule: rewritable.cases)
  fix f assume "v = Some (VNullInt32 f)"
  then show ?thesis by (cases f) simp
qed auto

lemma rewrite_field_settled:
  assumes "settled chg" and "rewrite_field name chg st = Inr st'"
  shows "rewrite_field name chg st' = Inr st'"
proof -
  from assms(2) rewrite_field_Inr_iff [of name chg st]
  have "rewritable (FieldByName st name)" by auto
  then consider (int) n where "FieldByName st name = Some (VInt n)"
    | (nullable) n b where "FieldByName st name = Some (VNullInt32 (NullInt32 n b))"
    using rewritable_cases by blast
  then show ?thesis
  proof cases
    case int
    show ?thesis
    proof (cases "chg n")
      case None
      with int assms show ?thesis by (simp add: rewrite_field_int)
    next
      case (Some v)
      with int assms have st': "st' = set_field st name (VInt v)"
        by (simp add: rewrite_field_int)
      with int have f: "FieldByName st' name = Some (VInt v)"
        by (simp add: FieldByName_set_field_same)
      from assms(1) Some have "chg v = None \<or> chg v = Some v"
        by (auto simp: settled_def)
      then show ?thesis
        using f by (auto simp: rewrite_field_int set_field_same)
    qed
  next
    case nullable
    show ?thesis
    proof (cases "chg (scast n)")
      case None
      with nullable assms show ?thesis by (simp add: rewrite_field_nullable)
    next
      case (Some v)
      with nullable assms
      have st': "st' = set_field st name (VNullInt32 (NullInt32 (ucast v) b))"
        by (simp add: rewrite_field_nullable)
      with nullable have f: "FieldByName st' name = Some (VNullInt32 (NullInt32 (ucast v) b))"
        by (simp add: FieldByName_set_field_same)
      from assms(1) Some
      have "chg v = None \<or> chg v = Some v" and "scast (ucast v :: 32 word) = v"
        by (auto simp: settled_def int32_exact_def)
      then show ?thesis
        using f by (auto simp: rewrite_field_nullable set_field_same)
    qed
  qed
qed

lemma UpdateIDs_loop_keeps_fixed:
  "UpdateIDs_loop s name chg h = Inr h' \<Longrightarrow> rewrite_field name chg (h a) = Inr (h a) \<Longrightarrow>
   h' a = h a"
proof (induction s arbitrary: h)
  case Nil
  then show ?case by simp
next
  case (Cons p s)
  show ?case
  proof (cases p)
    case None
    with Cons show ?thesis by simp
  next
    case (Some b)
    with Cons.prems obtain st where st: "rewrite_field name chg (h b) = Inr st"
      and run: "UpdateIDs_loop s name chg (h(b := st)) = Inr h'"
      by (auto split: sum.splits)
    from st Cons.prems(2) have eq: "(h(b := st)) a = h a" by (cases "a = b") auto
    with Cons.prems(2) have "rewrite_field name chg ((h(b := st)) a) = Inr ((h(b := st)) a)"
      by simp
    from Cons.IH [OF run this] eq show ?thesis by simp
  qed
qed

lemma UpdateIDs_loop_reaches_fixed:
  assumes "settled chg"
  shows "UpdateIDs_loop s name chg h = Inr h' \<Longrightarrow> Some a \<in> set s \<Longrightarrow>
         rewrite_field name chg (h' a) = Inr (h' a)"
proof (induction s arbitrary: h)
  case Nil
  then show ?case by simp
next
  case (Cons p s)
  show ?case
  proof (cases p)
    case None
    with Cons show ?thesis by simp
  next
    case (Some b)
    with Cons.prems obtain st where st: "rewrite_field name chg (h b) = Inr st"
      and run: "UpdateIDs_loop s name chg (h(b := st)) = Inr h'"
      by (auto split: sum.splits)
    show ?thesis
    proof (cases "Some a \<in> set s")
      case True
      from Cons.IH [OF run True] show ?thesis .
    next
      case False
      with Cons.prems(2) Some have ab: "a = b" by simp
      from rewrite_field_settled [OF assms st]
      have fx: "rewrite_field name chg ((h(b := st)) b) = Inr ((h(b := st)) b)" by simp
      from UpdateIDs_loop_keeps_fixed [OF run fx] fx ab show ?thesis by simp
    qed
  qed
qed

lemma UpdateIDs_loop_all_fixed:
  "(\<And>a. Some a \<in> set s \<Longrightarrow> rewrite_field name chg (h a) = Inr (h a)) \<Longrightarrow>
   UpdateIDs_loop s name chg h = Inr h"
proof (induction s)
  case Nil
  then show ?case by simp
next
  case (Cons p s)
  then show ?case by (cases p) auto
qed


subsection \<open>A nullable foreign key\<close>

lemma UpdateIDs_loop_nullable_flag:
  "UpdateIDs_loop s name chg h = Inr h' \<Longrightarrow>
   FieldByName (h a) name = Some (VNullInt32 (NullInt32 n b)) \<Longrightarrow>
   \<exists>n'. FieldByName (h' a) name = Some (VNullInt32 (NullInt32 n' b)) \<and>
        (chg (scast n) = None \<longrightarrow> h' a = h a)"
proof (induction s arbitrary: h n)
  case Nil
  then show ?case by simp
next
  case (Cons p s)
  show ?case
  proof (cases p)
    case None
    with Cons show ?thesis by simp
  next
    case (Some c)
    with Cons.prems obtain st where st: "rewrite_field name chg (h c) = Inr st"
      and run: "UpdateIDs_loop s name chg (h(c := st)) = Inr h'"
      by (auto split: sum.splits)
    show ?thesis
    proof (cases "c = a \<and> chg (scast n) \<noteq> None")
      case True
      then obtain new where new: "chg (scast n) = Some new" and ca: "c = a" by auto
      with st Cons.prems(2)
      have "st = set_field (h a) name (VNullInt32 (NullInt32 (ucast new) b))"
        by (simp add: rewrite_field_nullable)
      with Cons.prems(2) ca
      have "FieldByName ((h(c := st)) a) name = Some (VNullInt32 (NullInt32 (ucast new) b))"
        by (simp add: FieldByName_set_field_same)
      from Cons.IH [OF run this] new show ?thesis by auto
    next
      case False
      with st Cons.prems(2) have eq: "(h(c := st)) a = h a"
        by (cases "c = a") (auto simp: rewrite_field_nullable)
      with Cons.prems(2)
      have "FieldByName ((h(c := st)) a) name = Some (VNullInt32 (NullInt32 n b))"
        by simp
      from Cons.IH [OF run this] eq show ?thesis by auto
    qed
  qed
qed

lemma UpdateIDs_loop_nullable_once:
  "UpdateIDs_loop s name chg h = Inr h' \<Longrightarrow>
   FieldByName (h a) name = Some (VNullInt32 (NullInt32 n b)) \<Longrightarrow>
   count_list s (Some a) = 1 \<Longrightarrow> chg (scast n) = Some new \<Longrightarrow>
   h' a = set_field (h a) name (VNullInt32 (NullInt32 (ucast new) b))"
proof (induction s arbitrary: h)
  case Nil
  then show ?case by simp
next
  case (Cons p s)
  show ?case
  proof (cases p)
    case None
    with Cons show ?thesis by simp
  next
    case (Some c)
    with Cons.prems obtain st where st: "rewrite_field name chg (h c) = Inr st"
      and run: "UpdateIDs_loop s name chg (h(c := st)) = Inr h'"
      by (auto split: sum.splits)
    show ?thesis
    proof (cases "c = a")
      case True
      with Cons.prems(3) Some have "count_list s (Some a) = 0" by simp
      then have notin: "Some a \<notin> set s" by (simp add: count_list_0_iff)
      from st Cons.prems(2,4) True
      have "st = set_field (h a) name (VNullInt32 (NullInt32 (ucast new) b))"
        by (simp add: rewrite_field_nullable)
      with UpdateIDs_loop_frame [OF run notin] True show ?thesis by simp
    next
      case False
      with Cons.prems(3) Some have cnt: "count_list s (Some a) = 1" by simp
      from False have eq: "(h(c := st)) a = h a" by simp
      with Cons.prems(2)
      have "FieldByName ((h(c := st)) a) name = Some (VNullInt32 (NullInt32 n b))" by simp
      from Cons.IH [OF run this cnt Cons.prems(4)] eq show ?thesis by simp
    qed
  qed
qed


text \<open>
  Claim C1, as the code has it. The claim says that a nullable integer field whose
  \<open>Valid\<close> bit is unset is left unchanged even when its numeric slot is a key of the map.
  \<open>UpdateIDs\<close> never reads the \<open>Valid\<close> bit: for a row of the slice whose named field is a
  nullable integer, \<open>Valid\<close> is kept as it is, set or unset; the whole row is unchanged when
  the numeric slot of the field is not a key of the map; and when the slot is a key and the
  row occurs once in the slice, the slot becomes the new ID, cut to 32 bits.
\<close>

theorem UpdateIDs_nullable_field:
  assumes "UpdateIDs (Slice s) name chg h = Inr h'"
    and "Some a \<in> set s"
    and "FieldByName (h a) name = Some (VNullInt32 (NullInt32 n b))"
  shows "\<exists>n'. FieldByName (h' a) name = Some (VNullInt32 (NullInt32 n' b)) \<and>
           (chg (scast n) = None \<longrightarrow> h' a = h a) \<and>
           (\<forall>new. chg (scast n) = Some new \<and> count_list s (Some a) = 1 \<longrightarrow>
                  n' = ucast new)"
proof -
  from assms(1) have run: "UpdateIDs_loop s name chg h = Inr h'"
    by (simp add: UpdateIDs_def)
  from UpdateIDs_loop_nullable_flag [OF run assms(3)]
  obtain n' where n': "FieldByName (h' a) name = Some (VNullInt32 (NullInt32 n' b))"
    and keep: "chg (scast n) = None \<longrightarrow> h' a = h a" by auto
  have "n' = ucast new" if "chg (scast n) = Some new" and "count_list s (Some a) = 1" for new
  proof -
    from UpdateIDs_loop_nullable_once [OF run assms(3) that(2) that(1)] assms(3)
    have "FieldByName (h' a) name = Some (VNullInt32 (NullInt32 (ucast new) b))"
      by (simp add: FieldByName_set_field_same)
    with n' show ?thesis by simp
  qed
  then have "\<forall>new. chg (scast n) = Some new \<and> count_list s (Some a) = 1 \<longrightarrow> n' = ucast new"
    by simp
  with n' keep show ?thesis by (intro exI [of _ n'] conjI)
qed


theorem UpdateIDs_nullable_field_witness:
  "UpdateIDs (Slice [None, Some 1]) ''LocationID'' [1 \<mapsto> 5] absent_heap =
     Inr (absent_heap(1 := Note_struct 1 (NullInt32 5 False) 0)) \<and>
   Some 1 \<in> set [None, Some (1::addr)] \<and>
   FieldByName (absent_heap 1) ''LocationID'' = Some (VNullInt32 (NullInt32 1 False)) \<and>
   (\<exists>n'. FieldByName ((absent_heap(1 := Note_struct 1 (NullInt32 5 False) 0)) 1) ''LocationID'' =
            Some (VNullInt32 (NullInt32 n' False)) \<and> n' = 5)"
proof -
  have run: "UpdateIDs (Slice [None, Some 1]) ''LocationID'' [1 \<mapsto> 5] absent_heap =
     Inr (absent_heap(1 := Note_struct 1 (NullInt32 5 False) 0))"
    by (simp add: UpdateIDs_def absent_heap_def Note_struct_def rewrite_field_def FieldByName_def)
  have mem: "Some 1 \<in> set [None, Some (1::addr)]" by simp
  have fld: "FieldByName (absent_heap 1) ''LocationID'' = Some (VNullInt32 (NullInt32 1 False))"
    by (simp add: absent_heap_def Note_struct_def FieldByName_def)
  from UpdateIDs_nullable_field [OF run mem fld] run mem fld show ?thesis by simp
qed

text \<open>
  The claim itself fails: the note at address 1 has an absent \<open>LocationID\<close> with 1 in its
  slot, the map sends 1 to 5, and after \<open>UpdateIDs\<close> the slot holds 5.
\<close>

theorem UpdateIDs_absent_field_rewritten:
  "FieldByName (absent_heap 1) ''LocationID'' = Some (VNullInt32 (NullInt32 1 False)) \<and>
   UpdateIDs (Slice [None, Some 1]) ''LocationID'' [1 \<mapsto> 5] absent_heap =
     Inr (absent_heap(1 := Note_struct 1 (NullInt32 5 False) 0)) \<and>
   FieldByName ((absent_heap(1 := Note_struct 1 (NullInt32 5 False) 0)) 1) ''LocationID'' \<noteq>
     FieldByName (absent_heap 1) ''LocationID''"
  by (simp add: UpdateIDs_def absent_heap_def Note_struct_def rewrite_field_def FieldByName_def)

subsection \<open>Applying the same map twice\<close>

text \<open>
  Claim C5, as the code has it. The claim says that applying \<open>UpdateIDs\<close> with the same map
  a second time changes nothing, for every map. That holds for every \<^const>\<open>settled\<close> map:
  when no new ID of the map is moved on by the map (and the new IDs fit an \<open>int32\<close>, as
  a nullable field needs), a second call on the result returns and gives the same store,
  whatever the slice, aliased pointers included.
\<close>

theorem UpdateIDs_idempotent:
  assumes "settled chg" and "UpdateIDs mdl name chg h = Inr h1"
  shows "UpdateIDs mdl name chg h1 = Inr h1"
proof (cases mdl)
  case (Slice s)
  with assms(2) have run: "UpdateIDs_loop s name chg h = Inr h1"
    by (simp add: UpdateIDs_def)
  have "UpdateIDs_loop s name chg h1 = Inr h1"
    by (rule UpdateIDs_loop_all_fixed) (rule UpdateIDs_loop_reaches_fixed [OF assms(1) run])
  with Slice show ?thesis by (simp add: UpdateIDs_def)
next
  case (PtrToSlice s)
  with assms(2) show ?thesis by (simp add: UpdateIDs_def)
next
  case (StructValue st)
  with assms(2) show ?thesis by (simp add: UpdateIDs_def)
next
  case NilInterface
  with assms(2) show ?thesis by (simp add: UpdateIDs_def)
qed



theorem UpdateIDs_idempotent_witness:
  "settled test_changes_Left \<and>
   (\<exists>h1. UpdateIDs (Slice test_left) ''LocationID'' test_changes_Left test_heap = Inr h1 \<and>
         UpdateIDs (Slice test_left) ''LocationID'' test_changes_Left h1 = Inr h1 \<and>
         deref h1 test_left =
           [None,
            Some (Bookmark_struct (Bookmark_zero\<lparr>BookmarkID := 1, Bookmark.LocationID := 5\<rparr>)),
            Some (Bookmark_struct (Bookmark_zero\<lparr>BookmarkID := 2\<rparr>))])"
proof -
  have st: "settled test_changes_Left"
    by (simp add: settled_def test_changes_Left_def int32_exact_def)
  have "\<exists>h1. UpdateIDs (Slice test_left) ''LocationID'' test_changes_Left test_heap = Inr h1 \<and>
     deref h1 test_left =
           [None,
            Some (Bookmark_struct (Bookmark_zero\<lparr>BookmarkID := 1, Bookmark.LocationID := 5\<rparr>)),
            Some (Bookmark_struct (Bookmark_zero\<lparr>BookmarkID := 2\<rparr>))]"
    by (simp add: UpdateIDs_def test_left_def test_heap_def test_changes_Left_def deref_def
        rewrite_field_def FieldByName_def Bookmark_struct_def Bookmark_zero_def)
  then obtain h1 where
    run: "UpdateIDs (Slice test_left) ''LocationID'' test_changes_Left test_heap = Inr h1"
    and rows: "deref h1 test_left =
           [None,
            Some (Bookmark_struct (Bookmark_zero\<lparr>BookmarkID := 1, Bookmark.LocationID := 5\<rparr>)),
            Some (Bookmark_struct (Bookmark_zero\<lparr>BookmarkID := 2\<rparr>))]"
    by auto
  from UpdateIDs_idempotent [OF st run] st run rows show ?thesis by auto
qed

text \<open>
  The claim itself fails on a map that moves a new ID on: with 1 to 2 and 2 to 3, a
  bookmark with \<open>LocationID\<close> 1 has 2 after one call and 3 after the second.
\<close>

theorem UpdateIDs_twice_differs:
  "UpdateIDs (Slice [Some 1]) ''LocationID'' chain_changes chain_heap =
     Inr (chain_heap(1 := Bookmark_struct (Bookmark_zero\<lparr>BookmarkID := 1, Bookmark.LocationID := 2\<rparr>))) \<and>
   UpdateIDs (Slice [Some 1]) ''LocationID'' chain_changes
       (chain_heap(1 := Bookmark_struct (Bookmark_zero\<lparr>BookmarkID := 1, Bookmark.LocationID := 2\<rparr>))) =
     Inr (chain_heap(1 := Bookmark_struct (Bookmark_zero\<lparr>BookmarkID := 1, Bookmark.LocationID := 3\<rparr>))) \<and>
   deref (chain_heap(1 := Bookmark_struct (Bookmark_zero\<lparr>BookmarkID := 1, Bookmark.LocationID := 3\<rparr>))) [Some 1] \<noteq>
   deref (chain_heap(1 := Bookmark_struct (Bookmark_zero\<lparr>BookmarkID := 1, Bookmark.LocationID := 2\<rparr>))) [Some 1]"
  by (simp add: UpdateIDs_def chain_heap_def chain_changes_def deref_def
      rewrite_field_def FieldByName_def Bookmark_struct_def Bookmark_zero_def)

subsection \<open>The bookmark scenario of the test\<close>

text \<open>
  Claim C6. \<open>TestUpdateIDs_Bookmarks\<close>: the left slice is rewritten with the map 1 to 5, then
  the right slice with the map 1 to 2, field \<open>LocationID\<close>. In the store that results the
  left rows are \<open>[nil, {id 1, loc 5}, {id 2}]\<close> and the right rows
  \<open>[nil, {}, {id 2, loc 5}, {id 3, loc 2}]\<close>: only the rows whose \<open>LocationID\<close> is a key of
  their side's map have changed.
\<close>

theorem UpdateIDs_Bookmarks_scenario:
  "\<exists>h1 h2.
     UpdateIDs (Slice test_left) ''LocationID'' test_changes_Left test_heap = Inr h1 \<and>
     UpdateIDs (Slice test_right) ''LocationID'' test_changes_Right h1 = Inr h2 \<and>
     deref h2 test_left =
       [None,
        Some (Bookmark_struct (Bookmark_zero\<lparr>BookmarkID := 1, Bookmark.LocationID := 5\<rparr>)),
        Some (Bookmark_struct (Bookmark_zero\<lparr>BookmarkID := 2\<rparr>))] \<and>
     deref h2 test_right =
       [None,
        Some (Bookmark_struct Bookmark_zero),
        Some (Bookmark_struct (Bookmark_zero\<lparr>BookmarkID := 2, Bookmark.LocationID := 5\<rparr>)),
        Some (Bookmark_struct (Bookmark_zero\<lparr>BookmarkID := 3, Bookmark.LocationID := 2\<rparr>))]"
  by (simp add: UpdateIDs_def test_left_def test_right_def test_heap_def deref_def
      test_changes_Left_def test_changes_Right_def
      rewrite_field_def FieldByName_def Bookmark_struct_def Bookmark_zero_def)

subsection \<open>Panics\<close>









text \<open>The three panics of the test, with their messages.\<close>

lemma UpdateIDs_test_panics:
  "UpdateIDs (Slice test_left) ''WrongField'' test_changes_Left test_heap =
     Inl ''Given struct does not contain field WrongField''"
  "UpdateIDs (Slice test_left) ''Title'' test_changes_Left test_heap =
     Inl ''Type string of field Title is not supported!''"
  "UpdateIDs (StructValue (Bookmark_struct Bookmark_zero)) ''LocationID'' test_changes_Left test_heap =
     Inl ''Only slices are supported!''"
  by (simp_all add: UpdateIDs_def test_left_def test_heap_def
      rewrite_field_def FieldByName_def Bookmark_struct_def Bookmark_zero_def)

text \<open>A slice with no row in it gives nothing to inspect, and the call returns.\<close>

lemma UpdateIDs_no_rows:
  "UpdateIDs (Slice (replicate n None)) name chg h = Inr h"
  by (induction n) (simp_all add: UpdateIDs_def)


section \<open>Properties of the keys and equalities\<close>

text \<open>Some values of the functions, and the law of \<open>SetID\<close> and \<open>ID\<close>.\<close>

lemma Bookmark_UniqueKey_example:
  "Bookmark_UniqueKey (Bookmark_zero\<lparr>PublicationLocationID := 12, Slot := 3\<rparr>) = ''12_3''"
  by (simp add: Bookmark_UniqueKey_def Bookmark_zero_def FormatInt_def decimal.simps)

lemma FormatInt_examples:
  "FormatInt 0 = ''0''" "FormatInt 1205 = ''1205''" "FormatInt (- 75) = ''-75''"
  "FormatInt (sint (- 1 :: 32 word)) = ''-1''"
  by (simp_all add: FormatInt_def decimal.simps)

lemma methods_law:
  "ID Location_methods (SetID Location_methods i r) = i"
  "ID Bookmark_methods (SetID Bookmark_methods i b) = i"
  by (simp_all add: Location_methods_def Location_ID_def Location_SetID_def
      Bookmark_methods_def Bookmark_ID_def Bookmark_SetID_def)


lemma join_eight:
  "join sep [a, b, c, d, e, f, g, h] =
     a @ sep @ b @ sep @ c @ sep @ d @ sep @ e @ sep @ f @ sep @ g @ sep @ h"
  by simp

lemma present_or_zero_slot:
  "(\<not> Valid f \<longrightarrow> Int32 f = 0) \<Longrightarrow> present_or_zero f = Int32 f"
  by (simp add: present_or_zero_def)

text \<open>
  Claim C8, as the code has it. The key of a Location is book number, chapter number,
  document id, track, issue tag, key symbol, language and location type joined with
  underscores, and neither the title nor the ID contributes. A nullable number contributes
  the number in its slot whether or not its present bit is set: the code agrees with the
  specification's key (absent counts as 0) on every location whose absent numbers hold 0.
\<close>

theorem Location_UniqueKey_fields:
  "Location_UniqueKey m =
     join ''_''
       [FormatInt (sint (Int32 (BookNumber m))),
        FormatInt (sint (Int32 (ChapterNumber m))),
        FormatInt (sint (Int32 (DocumentID m))),
        FormatInt (sint (Int32 (Track m))),
        FormatInt (sint (IssueTagNumber m)),
        String (KeySymbol m),
        FormatInt (sint (MepsLanguage m)),
        FormatInt (sint (LocationType m))] \<and>
   (absent_are_zero m \<longrightarrow> Location_UniqueKey m = UniqueKey_spec m) \<and>
   Location_UniqueKey (m\<lparr>Location.Title := t, Location.LocationID := i\<rparr>) = Location_UniqueKey m"
proof (intro conjI impI)
  show "Location_UniqueKey m =
     join ''_''
       [FormatInt (sint (Int32 (BookNumber m))),
        FormatInt (sint (Int32 (ChapterNumber m))),
        FormatInt (sint (Int32 (DocumentID m))),
        FormatInt (sint (Int32 (Track m))),
        FormatInt (sint (IssueTagNumber m)),
        String (KeySymbol m),
        FormatInt (sint (MepsLanguage m)),
        FormatInt (sint (LocationType m))]"
    unfolding join_eight by (simp add: Location_UniqueKey_def)
next
  assume "absent_are_zero m"
  then have "present_or_zero (BookNumber m) = Int32 (BookNumber m)"
    and "present_or_zero (ChapterNumber m) = Int32 (ChapterNumber m)"
    and "present_or_zero (DocumentID m) = Int32 (DocumentID m)"
    and "present_or_zero (Track m) = Int32 (Track m)"
    by (simp_all add: absent_are_zero_def present_or_zero_slot)
  then show "Location_UniqueKey m = UniqueKey_spec m"
    unfolding UniqueKey_spec_def join_eight by (simp add: Location_UniqueKey_def)
next
  show "Location_UniqueKey (m\<lparr>Location.Title := t, Location.LocationID := i\<rparr>) =
        Location_UniqueKey m"
    by (simp add: Location_UniqueKey_def)
qed

theorem Location_UniqueKey_fields_witness:
  "absent_are_zero genesis3 \<and>
   Location_UniqueKey genesis3 = ''1_3_0_0_0_nwt_2_0'' \<and>
   UniqueKey_spec genesis3 = ''1_3_0_0_0_nwt_2_0''"
proof -
  have a: "absent_are_zero genesis3"
    by (simp add: absent_are_zero_def genesis3_def Location_zero_def)
  have k: "UniqueKey_spec genesis3 = ''1_3_0_0_0_nwt_2_0''"
    by (simp add: UniqueKey_spec_def present_or_zero_def genesis3_def Location_zero_def
        FormatInt_def decimal.simps)
  from Location_UniqueKey_fields [of genesis3] a
  have "Location_UniqueKey genesis3 = UniqueKey_spec genesis3" by blast
  with a k show ?thesis by simp
qed

text \<open>
  The claim itself fails where an absent number has something else than 0 in its slot:
  the absent book number of this location contributes 7.
\<close>

theorem Location_UniqueKey_absent_not_zero:
  "\<not> Valid (BookNumber stale_location) \<and>
   Location_UniqueKey stale_location = ''7_0_0_0_0__0_0'' \<and>
   UniqueKey_spec stale_location = ''0_0_0_0_0__0_0''"
  by (simp add: Location_UniqueKey_def UniqueKey_spec_def present_or_zero_def
      stale_location_def Location_zero_def FormatInt_def decimal.simps)

subsection \<open>Locations collapse by their key\<close>

lemma representatives_subset: "set (representatives f seen w) \<subseteq> set w"
  by (induction w arbitrary: seen) auto

lemma representatives_keys:
  "f ` set (representatives f seen w) = f ` set w - set seen"
  by (induction w arbitrary: seen) auto

lemma representatives_distinct: "distinct (map f (representatives f seen w))"
proof (induction w arbitrary: seen)
  case Nil
  then show ?case by simp
next
  case (Cons x w)
  have "f x \<notin> f ` set (representatives f (f x # seen) w)"
    by (simp add: representatives_keys)
  with Cons show ?case by simp
qed

lemma representatives_by_keys:
  "map f (representatives f seen w) = representatives (\<lambda>k. k) seen (map f w)"
  by (induction w arbitrary: seen) simp_all

lemma representatives_map:
  assumes "\<And>x. f (t x) = f x"
  shows "representatives f seen (map t w) = map t (representatives f seen w)"
  by (induction w arbitrary: seen) (simp_all add: assms)

lemma present_map: "present (map (map_option t) xs) = map t (present xs)"
proof (induction xs)
  case Nil
  then show ?case by (simp add: present_def)
next
  case (Cons x xs)
  then show ?case by (cases x) (simp_all add: present_def)
qed

lemma working_list_map:
  "working_list (map (map_option t) l) (map (map_option t) r) =
     map (apsnd t) (working_list l r)"
  by (simp add: working_list_def present_map)

lemma pairwise_equal_never:
  "pairwise_equal (\<lambda>a b. False) g = (length g \<le> 1)"
proof (cases g)
  case Nil
  then show ?thesis by simp
next
  case (Cons x xs)
  then show ?thesis by (cases xs) simp_all
qed

text \<open>
  Claim C10. \<open>Location.Equals\<close> is false for every argument, also for the receiver itself
  and for a Location with the same fields. The deduplication of the Locations rests on
  the UniqueKey alone: the survivors are rows of the two sides, one for every key that
  occurs, no two with the same key; which rows survive is decided by the keys of the rows
  and nothing else, so that the same rows survive whatever titles and IDs the rows are
  given; and structural equality could not do it, since a group passes the skeleton's test
  of pairwise equality only when it has at most one row.
\<close>

theorem Location_dedup_by_key:
  "\<not> Location_Equals m m2 \<and> \<not> Location_Equals m (LocationModel m) \<and>
   set (Location_survivors l r) \<subseteq> set (working_list l r) \<and>
   distinct (map (\<lambda>x. Location_UniqueKey (snd x)) (Location_survivors l r)) \<and>
   set (map (\<lambda>x. Location_UniqueKey (snd x)) (Location_survivors l r)) =
     set (map (\<lambda>x. Location_UniqueKey (snd x)) (working_list l r)) \<and>
   map (\<lambda>x. Location_UniqueKey (snd x)) (Location_survivors l r) =
     representatives (\<lambda>k. k) [] (map (\<lambda>x. Location_UniqueKey (snd x)) (working_list l r)) \<and>
   Location_survivors
       (map (map_option (\<lambda>x. x\<lparr>Location.Title := title x, Location.LocationID := ident x\<rparr>)) l)
       (map (map_option (\<lambda>x. x\<lparr>Location.Title := title x, Location.LocationID := ident x\<rparr>)) r) =
     map (apsnd (\<lambda>x. x\<lparr>Location.Title := title x, Location.LocationID := ident x\<rparr>))
       (Location_survivors l r) \<and>
   pairwise_equal (\<lambda>a b. Location_Equals a (LocationModel b))
       (map snd (group_of Location_UniqueKey k (working_list l r))) =
     (length (group_of Location_UniqueKey k (working_list l r)) \<le> 1)"
proof (intro conjI)
  have "Location_UniqueKey (snd (apsnd (\<lambda>x. x\<lparr>Location.Title := title x,
          Location.LocationID := ident x\<rparr>) y)) = Location_UniqueKey (snd y)" for y
    by (cases y) (simp add: Location_UniqueKey_def)
  then show "Location_survivors
       (map (map_option (\<lambda>x. x\<lparr>Location.Title := title x, Location.LocationID := ident x\<rparr>)) l)
       (map (map_option (\<lambda>x. x\<lparr>Location.Title := title x, Location.LocationID := ident x\<rparr>)) r) =
     map (apsnd (\<lambda>x. x\<lparr>Location.Title := title x, Location.LocationID := ident x\<rparr>))
       (Location_survivors l r)"
    unfolding Location_survivors_def working_list_map
    by (rule representatives_map)
next
  show "\<not> Location_Equals m m2" and "\<not> Location_Equals m (LocationModel m)"
    by (simp_all add: Location_Equals_def)
  show "set (Location_survivors l r) \<subseteq> set (working_list l r)"
    unfolding Location_survivors_def by (rule representatives_subset)
  show "distinct (map (\<lambda>x. Location_UniqueKey (snd x)) (Location_survivors l r))"
    unfolding Location_survivors_def by (rule representatives_distinct)
  show "set (map (\<lambda>x. Location_UniqueKey (snd x)) (Location_survivors l r)) =
     set (map (\<lambda>x. Location_UniqueKey (snd x)) (working_list l r))"
    unfolding Location_survivors_def by (simp add: representatives_keys)
  show "map (\<lambda>x. Location_UniqueKey (snd x)) (Location_survivors l r) =
     representatives (\<lambda>k. k) [] (map (\<lambda>x. Location_UniqueKey (snd x)) (working_list l r))"
    unfolding Location_survivors_def by (rule representatives_by_keys)
  have "(\<lambda>a b. Location_Equals a (LocationModel b)) = (\<lambda>a b. False)"
    by (simp add: Location_Equals_def)
  then show "pairwise_equal (\<lambda>a b. Location_Equals a (LocationModel b))
       (map snd (group_of Location_UniqueKey k (working_list l r))) =
     (length (group_of Location_UniqueKey k (working_list l r)) \<le> 1)"
    by (simp add: pairwise_equal_never)
qed

text \<open>
  Scenario 4 of the specification: two Locations with the same key and different titles,
  one on each side. They are not equal for \<open>Equals\<close>, and the left one alone survives.
\<close>

theorem Location_dedup_by_key_witness:
  "Location_UniqueKey genesis3 = Location_UniqueKey genesis3_retitled \<and>
   Location.Title genesis3 \<noteq> Location.Title genesis3_retitled \<and>
   \<not> Location_Equals genesis3 (LocationModel genesis3_retitled) \<and>
   working_list [None, Some genesis3] [None, Some genesis3_retitled] =
     [(LeftSide, genesis3), (RightSide, genesis3_retitled)] \<and>
   Location_survivors [None, Some genesis3] [None, Some genesis3_retitled] =
     [(LeftSide, genesis3)] \<and>
   \<not> pairwise_equal (\<lambda>a b. Location_Equals a (LocationModel b))
       (map snd (group_of Location_UniqueKey (Location_UniqueKey genesis3)
          (working_list [None, Some genesis3] [None, Some genesis3_retitled])))"
proof -
  have k: "Location_UniqueKey genesis3 = Location_UniqueKey genesis3_retitled"
    by (simp add: genesis3_retitled_def Location_UniqueKey_def)
  have t: "Location.Title genesis3 \<noteq> Location.Title genesis3_retitled"
    by (simp add: genesis3_retitled_def genesis3_def)
  have w: "working_list [None, Some genesis3] [None, Some genesis3_retitled] =
     [(LeftSide, genesis3), (RightSide, genesis3_retitled)]"
    by (simp add: working_list_def present_def)
  have s: "Location_survivors [None, Some genesis3] [None, Some genesis3_retitled] =
     [(LeftSide, genesis3)]"
    by (simp add: Location_survivors_def w k)
  have g: "length (group_of Location_UniqueKey (Location_UniqueKey genesis3)
          (working_list [None, Some genesis3] [None, Some genesis3_retitled])) = 2"
    by (simp add: group_of_def w k)
  from Location_dedup_by_key [where m = genesis3 and ?m2.0 = "LocationModel genesis3_retitled"
      and l = "[None, Some genesis3]" and r = "[None, Some genesis3_retitled]"
      and k = "Location_UniqueKey genesis3"] g
  have "\<not> Location_Equals genesis3 (LocationModel genesis3_retitled)"
    and "\<not> pairwise_equal (\<lambda>a b. Location_Equals a (LocationModel b))
       (map snd (group_of Location_UniqueKey (Location_UniqueKey genesis3)
          (working_list [None, Some genesis3] [None, Some genesis3_retitled])))"
    by simp_all
  with k t w s show ?thesis by simp
qed

text \<open>A bookmark, in contrast, equals every bookmark with the same fields but the ID.\<close>

lemma Bookmark_Equals_same:
  "Bookmark_Equals m (BookmarkModel (m\<lparr>BookmarkID := i\<rparr>))"
  by (simp add: Bookmark_Equals_def)





section \<open>Properties of sortByUniqueKey\<close>




lemma rows_map_Some [simp]: "rows (map Some as) = as"
  by (induction as) (simp_all add: rows_def)

lemma rows_replicate_None [simp]: "rows (replicate n None @ s) = rows s"
  by (induction n) (simp_all add: rows_def)









text \<open>An argument that is not a pointer to a slice makes the function panic.\<close>

lemma sortByUniqueKey_not_pointer:
  "sortByUniqueKey srt M (Slice s) h = Inl ''Only pointer to slice is supported''"
  by (simp add: sortByUniqueKey_def)

subsection \<open>Sorting by insertion sorts\<close>

text \<open>
  What is assumed of \<open>sort.Slice\<close> can be met: the comparison is transitive and
  asymmetric, and sorting by insertion gives a sorted permutation of every slice.
\<close>

lemma less_by_key_trans:
  "less_by_key M h p q \<Longrightarrow> less_by_key M h q r \<Longrightarrow> less_by_key M h p r"
  by (auto simp: less_by_key_def split: option.splits)

lemma less_by_key_asym:
  "less_by_key M h p q \<Longrightarrow> \<not> less_by_key M h q p"
  by (auto simp: less_by_key_def split: option.splits)

lemma mset_insert_less: "mset (insert_less lt x ys) = add_mset x (mset ys)"
  by (induction ys) simp_all

lemma set_insert_less: "set (insert_less lt x ys) = insert x (set ys)"
  by (induction ys) auto

lemma sorted_insert_less:
  assumes trans: "\<And>p q r. lt p q \<Longrightarrow> lt q r \<Longrightarrow> lt p r"
    and asym: "\<And>p q. lt p q \<Longrightarrow> \<not> lt q p"
  shows "sorted_wrt (\<lambda>p q. \<not> lt q p) ys \<Longrightarrow> sorted_wrt (\<lambda>p q. \<not> lt q p) (insert_less lt x ys)"
proof (induction ys)
  case Nil
  then show ?case by simp
next
  case (Cons y ys)
  show ?case
  proof (cases "lt x y")
    case True
    have "\<not> lt z x" if "z \<in> set ys" for z
    proof
      assume "lt z x"
      from this True have "lt z y" by (rule trans)
      with Cons.prems that show False by simp
    qed
    with True Cons.prems asym show ?thesis by auto
  next
    case False
    with Cons show ?thesis by (auto simp: set_insert_less)
  qed
qed

lemma insertion_sort_sorts: "sorts insertion_sort (less_by_key M h) s"
proof -
  have "mset (insertion_sort (less_by_key M h) s) = mset s"
    by (induction s) (simp_all add: insertion_sort_def mset_insert_less)
  moreover have "sorted_wrt (\<lambda>p q. \<not> less_by_key M h q p) (insertion_sort (less_by_key M h) s)"
  proof (induction s)
    case Nil
    then show ?case by (simp add: insertion_sort_def)
  next
    case (Cons p s)
    then have "sorted_wrt (\<lambda>p q. \<not> less_by_key M h q p)
        (insert_less (less_by_key M h) p (insertion_sort (less_by_key M h) s))"
      by (intro sorted_insert_less) (auto intro: less_by_key_trans dest: less_by_key_asym)
    then show ?case by (simp add: insertion_sort_def)
  qed
  ultimately show ?thesis by (simp add: sorts_def)
qed


section \<open>The order of the calls of the driver\<close>

lemma retry_trace:
  "retry f ask t us sol h = (tr, r) \<Longrightarrow>
   \<exists>n. tr = replicate (Suc n) (MergeCall t) @ (case r of None \<Rightarrow> [] | Some x \<Rightarrow> [MergeDone t])"
proof (induction us arbitrary: sol h tr r)
  case Nil
  then show ?case
    by (auto simp: retry.simps split: prod.splits outcome.splits intro: exI [of _ 0])
next
  case (Cons u us)
  show ?case
  proof (cases "f sol h")
    case (Pair out h')
    show ?thesis
    proof (cases out)
      case (Merged x)
      with Pair Cons.prems show ?thesis by (auto simp: retry.simps intro: exI [of _ 0])
    next
      case OtherError
      with Pair Cons.prems show ?thesis by (auto simp: retry.simps intro: exI [of _ 0])
    next
      case (MergeConflictError c)
      show ?thesis
      proof (cases "ask c u")
        case None
        with MergeConflictError Pair Cons.prems show ?thesis
          by (auto simp: retry.simps intro: exI [of _ 0])
      next
        case (Some sol')
        obtain tr' r' where rec: "retry f ask t us (Some sol') h' = (tr', r')"
          by (cases "retry f ask t us (Some sol') h'") auto
        with Some MergeConflictError Pair Cons.prems
        have tr: "tr = MergeCall t # tr'" and r: "r = r'"
          by (auto simp: retry.simps)
        from Cons.IH [OF rec] obtain n where
          "tr' = replicate (Suc n) (MergeCall t) @ (case r' of None \<Rightarrow> [] | Some x \<Rightarrow> [MergeDone t])"
          by blast
        with tr r have "tr = replicate (Suc (Suc n)) (MergeCall t) @ (case r of None \<Rightarrow> [] | Some x \<Rightarrow> [MergeDone t])"
          by simp
        then show ?thesis by blast
      qed
    qed
  qed
qed

lemma made_and_then_silent:
  assumes "made F r" and "\<And>a. snd r = Some a \<Longrightarrow> fst (f a) = [] \<and> snd (f a) \<noteq> None"
  shows "made F (and_then r f)"
proof (cases r)
  case (Pair tr x)
  show ?thesis
  proof (cases x)
    case None
    with Pair assms(1) show ?thesis by (auto simp: made_def and_then_def)
  next
    case (Some a)
    with Pair assms(2) have "fst (f a) = [] \<and> snd (f a) \<noteq> None" by simp
    with Pair Some assms(1) show ?thesis
      by (auto simp: made_def and_then_def split: prod.splits)
  qed
qed

lemma made_call_UpdateIDs: "made [UpdateIDsCall l r name src] (call_UpdateIDs P l r name src chg st)"
  by (simp add: made_def call_UpdateIDs_def)

lemma made_and_then:
  assumes "made F r" and "\<And>a. snd r = Some a \<Longrightarrow> made G (f a)"
  shows "made (F @ G) (and_then r f)"
proof (cases r)
  case (Pair tr x)
  show ?thesis
  proof (cases x)
    case None
    with Pair assms(1) show ?thesis by (auto simp: made_def and_then_def)
  next
    case (Some a)
    with Pair assms(2) have "made G (f a)" by simp
    with Pair Some assms(1) show ?thesis
      by (auto simp: made_def and_then_def split: prod.splits)
  qed
qed

lemma made_retry:
  "\<exists>n. made (loop_calls t n []) (retry f ask t us sol h)"
proof -
  obtain tr r where e: "retry f ask t us sol h = (tr, r)" by (cases "retry f ask t us sol h") auto
  from retry_trace [OF e] obtain n where
    "tr = replicate (Suc n) (MergeCall t) @ (case r of None \<Rightarrow> [] | Some x \<Rightarrow> [MergeDone t])"
    by blast
  with e have "made (loop_calls t n []) (retry f ask t us sol h)"
    by (cases r) (auto simp: made_def loop_calls_def)
  then show ?thesis ..
qed

lemma loop_calls_append: "loop_calls t n us = loop_calls t n [] @ us"
  by (simp add: loop_calls_def)

lemma made_locations: "made locations_calls (locations_step P st)"
proof -
  obtain ml ch h' where m: "MergeLocations P (Location (left st)) (Location (right st)) (heap st) = ((ml, ch), h')"
    by (cases "MergeLocations P (Location (left st)) (Location (right st)) (heap st)") auto
  have "made ([MergeCall LocationT, MergeDone LocationT] @
     [UpdateIDsCall (LeftList BookmarkT) (RightList BookmarkT) ''LocationID'' LocationT] @
     [UpdateIDsCall (LeftList BookmarkT) (RightList BookmarkT) ''PublicationLocationID'' LocationT] @
     [UpdateIDsCall (LeftList NoteT) (RightList NoteT) ''LocationID'' LocationT] @
     [UpdateIDsCall (LeftList TagMapT) (RightList TagMapT) ''LocationID'' LocationT])
     (locations_step P st)"
    unfolding locations_step_def m prod.case
    by (intro made_and_then made_call_UpdateIDs) (simp add: made_def)
  then show ?thesis by (simp add: locations_calls_def)
qed

lemma made_bookmarks: "\<exists>n. made (bookmarks_calls n) (bookmarks_step P st)"
proof -
  obtain n where "made (loop_calls BookmarkT n [])
     (retry (MergeBookmarks P (Bookmark (left st)) (Bookmark (right st)))
                 (handleMergeConflict P) BookmarkT (input st) None (heap st))"
    using made_retry by blast
  then have "made (loop_calls BookmarkT n []) (bookmarks_step P st)"
    unfolding bookmarks_step_def
    by (rule made_and_then_silent) (simp split: prod.splits)
  then have "made (bookmarks_calls n) (bookmarks_step P st)" by (simp add: bookmarks_calls_def)
  then show ?thesis ..
qed

lemma made_tagmaps: "\<exists>n. made (tagmaps_calls n) (tagmaps_step P st)"
proof -
  obtain n where "made (loop_calls TagMapT n [])
     (retry (MergeTagMaps P (TagMap (left st)) (TagMap (right st)))
                 (handleMergeConflict P) TagMapT (input st) None (heap st))"
    using made_retry by blast
  then have "made (loop_calls TagMapT n []) (tagmaps_step P st)"
    unfolding tagmaps_step_def
    by (rule made_and_then_silent) (simp split: prod.splits)
  then have "made (tagmaps_calls n) (tagmaps_step P st)" by (simp add: tagmaps_calls_def)
  then show ?thesis ..
qed

lemma made_tags: "\<exists>n. made (tags_calls n) (tags_step P st)"
proof -
  obtain n where "made (loop_calls TagT n [])
     (retry (MergeTags P (Tag (left st)) (Tag (right st)))
                 (handleMergeConflict P) TagT (input st) None (heap st))"
    using made_retry by blast
  then have "made (loop_calls TagT n [] @
      [UpdateIDsCall (LeftList TagMapT) (RightList TagMapT) ''TagID'' TagT]) (tags_step P st)"
    unfolding tags_step_def
    by (rule made_and_then) (simp add: made_call_UpdateIDs split: prod.splits)
  then have "made (tags_calls n) (tags_step P st)"
    by (simp add: tags_calls_def loop_calls_append [symmetric])
  then show ?thesis ..
qed

lemma made_usermarks: "\<exists>n. made (usermarks_calls n) (usermarks_step P st)"
proof -
  obtain n where "made (loop_calls UserMarkT n [])
     (retry (MergeUserMarkAndBlockRange P (UserMark (left st)) (BlockRange (left st))
                        (UserMark (right st)) (BlockRange (right st)))
                 (handleMergeConflict P) UserMarkT (input st) None (heap st))"
    using made_retry by blast
  then have "made (loop_calls UserMarkT n [] @
      [UpdateIDsCall (LeftList NoteT) (RightList NoteT) ''UserMarkID'' UserMarkT])
      (usermarks_step P st)"
    unfolding usermarks_step_def
    by (rule made_and_then) (simp add: made_call_UpdateIDs split: prod.splits)
  then have "made (usermarks_calls n) (usermarks_step P st)"
    by (simp add: usermarks_calls_def loop_calls_append [symmetric])
  then show ?thesis ..
qed

lemma made_notes: "\<exists>n. made (notes_calls n) (notes_step P st)"
proof -
  obtain n where "made (loop_calls NoteT n [])
     (retry (MergeNotes P (Note (left st)) (Note (right st)))
                 (handleMergeConflict P) NoteT (input st) None (heap st))"
    using made_retry by blast
  then have "made (loop_calls NoteT n [] @
      [UpdateIDsCall (MergedList TagMapT) NilArg ''NoteID'' NoteT]) (notes_step P st)"
    unfolding notes_step_def
    by (rule made_and_then) (simp add: made_call_UpdateIDs split: prod.splits)
  then have "made (notes_calls n) (notes_step P st)"
    by (simp add: notes_calls_def loop_calls_append [symmetric])
  then show ?thesis ..
qed


lemma made_seq:
  assumes "made F r" and "\<And>a. \<exists>x. made (G x) (f a)"
  shows "\<exists>x. made (F @ G x) (and_then r f)"
proof (cases r)
  case (Pair tr y)
  show ?thesis
  proof (cases y)
    case None
    from assms(2) [of undefined] obtain x where "made (G x) (f undefined)" ..
    from Pair None assms(1) have "made (F @ G x) (and_then r f)"
      by (auto simp: made_def and_then_def)
    then show ?thesis ..
  next
    case (Some a)
    from assms(2) [of a] obtain x where "made (G x) (f a)" ..
    with Pair Some assms(1) have "made (F @ G x) (and_then r f)"
      by (auto simp: made_def and_then_def split: prod.splits)
    then show ?thesis ..
  qed
qed

lemma made_merge: "\<exists>n2 n3 n4 n5 n6. made (all_calls n2 n3 n4 n5 n6) (merge P st)"
proof -
  have s6: "\<exists>n6. made (notes_calls n6) (notes_step P a)" for a
    by (rule made_notes)
  have s5: "\<exists>x. made (usermarks_calls (fst x) @ notes_calls (snd x))
      (and_then (usermarks_step P a) (notes_step P))" for a
  proof -
    from made_usermarks obtain n5 where "made (usermarks_calls n5) (usermarks_step P a)" ..
    from made_seq [OF this, of notes_calls "notes_step P", OF s6]
    obtain n6 where "made (usermarks_calls n5 @ notes_calls n6)
      (and_then (usermarks_step P a) (notes_step P))" ..
    then have "made (usermarks_calls (fst (n5, n6)) @ notes_calls (snd (n5, n6)))
      (and_then (usermarks_step P a) (notes_step P))" by simp
    then show ?thesis ..
  qed
  have s4: "\<exists>x. made (tagmaps_calls (fst x) @ usermarks_calls (fst (snd x)) @ notes_calls (snd (snd x)))
      (and_then (tagmaps_step P a) (\<lambda>st. and_then (usermarks_step P st) (notes_step P)))" for a
  proof -
    from made_tagmaps obtain n4 where "made (tagmaps_calls n4) (tagmaps_step P a)" ..
    from made_seq [OF this, of "\<lambda>x. usermarks_calls (fst x) @ notes_calls (snd x)"
        "\<lambda>st. and_then (usermarks_step P st) (notes_step P)", OF s5]
    obtain x where "made (tagmaps_calls n4 @ usermarks_calls (fst x) @ notes_calls (snd x))
      (and_then (tagmaps_step P a) (\<lambda>st. and_then (usermarks_step P st) (notes_step P)))" ..
    then have "made (tagmaps_calls (fst (n4, x)) @ usermarks_calls (fst (snd (n4, x))) @
        notes_calls (snd (snd (n4, x))))
      (and_then (tagmaps_step P a) (\<lambda>st. and_then (usermarks_step P st) (notes_step P)))"
      by simp
    then show ?thesis ..
  qed
  have s3: "\<exists>x. made (tags_calls (fst x) @ tagmaps_calls (fst (snd x)) @
        usermarks_calls (fst (snd (snd x))) @ notes_calls (snd (snd (snd x))))
      (and_then (tags_step P a) (\<lambda>st. and_then (tagmaps_step P st)
         (\<lambda>st. and_then (usermarks_step P st) (notes_step P))))" for a
  proof -
    from made_tags obtain n3 where "made (tags_calls n3) (tags_step P a)" ..
    from made_seq [OF this, of "\<lambda>x. tagmaps_calls (fst x) @ usermarks_calls (fst (snd x)) @
        notes_calls (snd (snd x))"
        "\<lambda>st. and_then (tagmaps_step P st) (\<lambda>st. and_then (usermarks_step P st) (notes_step P))",
        OF s4]
    obtain x where "made (tags_calls n3 @ tagmaps_calls (fst x) @ usermarks_calls (fst (snd x)) @
        notes_calls (snd (snd x)))
      (and_then (tags_step P a) (\<lambda>st. and_then (tagmaps_step P st)
         (\<lambda>st. and_then (usermarks_step P st) (notes_step P))))" ..
    then have "made (tags_calls (fst (n3, x)) @ tagmaps_calls (fst (snd (n3, x))) @
        usermarks_calls (fst (snd (snd (n3, x)))) @ notes_calls (snd (snd (snd (n3, x)))))
      (and_then (tags_step P a) (\<lambda>st. and_then (tagmaps_step P st)
         (\<lambda>st. and_then (usermarks_step P st) (notes_step P))))"
      by simp
    then show ?thesis ..
  qed
  have s2: "\<exists>x. made (bookmarks_calls (fst x) @ tags_calls (fst (snd x)) @
        tagmaps_calls (fst (snd (snd x))) @ usermarks_calls (fst (snd (snd (snd x)))) @
        notes_calls (snd (snd (snd (snd x)))))
      (and_then (bookmarks_step P a) (\<lambda>st. and_then (tags_step P st)
         (\<lambda>st. and_then (tagmaps_step P st)
         (\<lambda>st. and_then (usermarks_step P st) (notes_step P)))))" for a
  proof -
    from made_bookmarks obtain n2 where "made (bookmarks_calls n2) (bookmarks_step P a)" ..
    from made_seq [OF this, of "\<lambda>x. tags_calls (fst x) @ tagmaps_calls (fst (snd x)) @
        usermarks_calls (fst (snd (snd x))) @ notes_calls (snd (snd (snd x)))"
        "\<lambda>st. and_then (tags_step P st) (\<lambda>st. and_then (tagmaps_step P st)
           (\<lambda>st. and_then (usermarks_step P st) (notes_step P)))",
        OF s3]
    obtain x where "made (bookmarks_calls n2 @ tags_calls (fst x) @ tagmaps_calls (fst (snd x)) @
        usermarks_calls (fst (snd (snd x))) @ notes_calls (snd (snd (snd x))))
      (and_then (bookmarks_step P a) (\<lambda>st. and_then (tags_step P st)
         (\<lambda>st. and_then (tagmaps_step P st)
         (\<lambda>st. and_then (usermarks_step P st) (notes_step P)))))" ..
    then have "made (bookmarks_calls (fst (n2, x)) @ tags_calls (fst (snd (n2, x))) @
        tagmaps_calls (fst (snd (snd (n2, x)))) @ usermarks_calls (fst (snd (snd (snd (n2, x))))) @
        notes_calls (snd (snd (snd (snd (n2, x))))))
      (and_then (bookmarks_step P a) (\<lambda>st. and_then (tags_step P st)
         (\<lambda>st. and_then (tagmaps_step P st)
         (\<lambda>st. and_then (usermarks_step P st) (notes_step P)))))"
      by simp
    then show ?thesis ..
  qed
  from made_seq [OF made_locations, of "\<lambda>x. bookmarks_calls (fst x) @ tags_calls (fst (snd x)) @
        tagmaps_calls (fst (snd (snd x))) @ usermarks_calls (fst (snd (snd (snd x)))) @
        notes_calls (snd (snd (snd (snd x))))"
      "\<lambda>st. and_then (bookmarks_step P st) (\<lambda>st. and_then (tags_step P st)
         (\<lambda>st. and_then (tagmaps_step P st)
         (\<lambda>st. and_then (usermarks_step P st) (notes_step P))))" P st, OF s2]
  obtain x where "made (locations_calls @ bookmarks_calls (fst x) @ tags_calls (fst (snd x)) @
        tagmaps_calls (fst (snd (snd x))) @ usermarks_calls (fst (snd (snd (snd x)))) @
        notes_calls (snd (snd (snd (snd x))))) (merge P st)"
    unfolding merge_def ..
  then show ?thesis unfolding all_calls_def by blast
qed

lemma before_prefix:
  assumes "prefix tr (A @ e # B)" and "e \<in> set tr" and "e \<notin> set A"
  shows "before e tr = A"
proof -
  from assms(1) consider "prefix tr A" | t where "tr = A @ t" "prefix t (e # B)"
    by (auto simp: prefix_append)
  then show ?thesis
  proof cases
    case 1
    then have "set tr \<subseteq> set A" by (rule set_mono_prefix)
    with assms(2,3) show ?thesis by auto
  next
    case 2
    with assms(2,3) obtain t' where "t = e # t'" by (cases t) (auto simp: prefix_Cons)
    moreover from assms(3) have "\<And>x. x \<in> set A \<Longrightarrow> x \<noteq> e" by auto
    ultimately show ?thesis using 2 by (simp add: before_def takeWhile_append2)
  qed
qed

lemmas calls_defs = all_calls_def locations_calls_def bookmarks_calls_def tags_calls_def
  tagmaps_calls_def usermarks_calls_def notes_calls_def loop_calls_def


text \<open>
  The order of the calls in every run of the driver, whatever the merge functions and the
  user do. Before the first call of \<open>MergeTagMaps\<close> the merges of the Locations and of the
  Tags have returned and \<open>merger.UpdateIDs\<close> has been called with their changes for the
  left and the right TagMap lists; \<open>MergeNotes\<close> has not been called by then; and the only
  call of \<open>merger.UpdateIDs\<close> for \<open>NoteID\<close> is the one for the merged TagMap list with nil
  for the right side, made after the merges of the TagMaps and of the Notes have returned.
\<close>

lemma merge_call_order:
  assumes "MergeCall TagMapT \<in> set (fst (merge P st))"
  shows "MergeDone LocationT \<in> set (before (MergeCall TagMapT) (fst (merge P st))) \<and>
     UpdateIDsCall (LeftList TagMapT) (RightList TagMapT) ''LocationID'' LocationT
       \<in> set (before (MergeCall TagMapT) (fst (merge P st))) \<and>
     MergeDone TagT \<in> set (before (MergeCall TagMapT) (fst (merge P st))) \<and>
     UpdateIDsCall (LeftList TagMapT) (RightList TagMapT) ''TagID'' TagT
       \<in> set (before (MergeCall TagMapT) (fst (merge P st))) \<and>
     MergeCall NoteT \<notin> set (before (MergeCall TagMapT) (fst (merge P st))) \<and>
     (\<forall>l r src. UpdateIDsCall l r ''NoteID'' src \<in> set (fst (merge P st)) \<longrightarrow>
        l = MergedList TagMapT \<and> r = NilArg \<and> src = NoteT \<and>
        MergeDone TagMapT \<in> set (before (UpdateIDsCall l r ''NoteID'' src) (fst (merge P st))) \<and>
        MergeDone NoteT \<in> set (before (UpdateIDsCall l r ''NoteID'' src) (fst (merge P st))))"
proof -
  define tr where "tr = fst (merge P st)"
  from made_merge [of P st] obtain n2 n3 n4 n5 n6 where
    "made (all_calls n2 n3 n4 n5 n6) (merge P st)"
    by blast
  then have pre: "prefix tr (all_calls n2 n3 n4 n5 n6)"
    by (simp add: made_def tr_def)
  define A where "A = locations_calls @ bookmarks_calls n2 @ tags_calls n3"
  define B where "B = replicate n4 (MergeCall TagMapT) @ [MergeDone TagMapT] @
     usermarks_calls n5 @ notes_calls n6"
  define C where "C = locations_calls @ bookmarks_calls n2 @ tags_calls n3 @ tagmaps_calls n4 @
     usermarks_calls n5 @ loop_calls NoteT n6 []"
  have full1: "all_calls n2 n3 n4 n5 n6 = A @ MergeCall TagMapT # B"
    by (simp add: A_def B_def calls_defs)
  have full2: "all_calls n2 n3 n4 n5 n6 = C @ UpdateIDsCall (MergedList TagMapT) NilArg ''NoteID'' NoteT # []"
    by (simp add: C_def calls_defs)
  have notA: "MergeCall TagMapT \<notin> set A"
    by (simp add: A_def calls_defs)
  from assms have inTr: "MergeCall TagMapT \<in> set tr" by (simp add: tr_def)
  from pre inTr notA have bef: "before (MergeCall TagMapT) tr = A"
    unfolding full1 by (rule before_prefix)
  have first: "MergeDone LocationT \<in> set A"
     "UpdateIDsCall (LeftList TagMapT) (RightList TagMapT) ''LocationID'' LocationT \<in> set A"
     "MergeDone TagT \<in> set A"
     "UpdateIDsCall (LeftList TagMapT) (RightList TagMapT) ''TagID'' TagT \<in> set A"
     "MergeCall NoteT \<notin> set A"
    by (simp_all add: A_def calls_defs)
  have noteid: "l = MergedList TagMapT \<and> r = NilArg \<and> src = NoteT \<and>
        MergeDone TagMapT \<in> set (before (UpdateIDsCall l r ''NoteID'' src) tr) \<and>
        MergeDone NoteT \<in> set (before (UpdateIDsCall l r ''NoteID'' src) tr)"
    if mem: "UpdateIDsCall l r ''NoteID'' src \<in> set tr" for l r src
  proof -
    from pre have "set tr \<subseteq> set (all_calls n2 n3 n4 n5 n6)" by (rule set_mono_prefix)
    with mem have "UpdateIDsCall l r ''NoteID'' src \<in> set (all_calls n2 n3 n4 n5 n6)" by auto
    then have e: "UpdateIDsCall l r ''NoteID'' src = UpdateIDsCall (MergedList TagMapT) NilArg ''NoteID'' NoteT"
      by (auto simp: calls_defs)
    have notC: "UpdateIDsCall (MergedList TagMapT) NilArg ''NoteID'' NoteT \<notin> set C"
      by (simp add: C_def calls_defs)
    from pre mem notC have "before (UpdateIDsCall (MergedList TagMapT) NilArg ''NoteID'' NoteT) tr = C"
      unfolding full2 e by (rule before_prefix)
    moreover have "MergeDone TagMapT \<in> set C" and "MergeDone NoteT \<in> set C"
      by (simp_all add: C_def calls_defs)
    ultimately show ?thesis using e by simp
  qed
  from first noteid show ?thesis
    unfolding tr_def [symmetric] bef by blast
qed


lemmas run_defs = merge_def locations_step_def bookmarks_step_def tags_step_def
  tagmaps_step_def usermarks_step_def notes_step_def and_then_def call_UpdateIDs_def
  list_of_def table_of_def keep_left_def run_state_def empty_db_def no_changes_def
  UpdateIDs_both_def UpdateIDs_def rewrite_field_def FieldByName_def Bookmark_struct_def
  Bookmark_zero_def UserMark_struct_def test_m1_def retry.simps

text \<open>The calls of the run of \<^const>\<open>keep_left\<close> on \<^const>\<open>run_state\<close>.\<close>

lemma keep_left_calls:
  "fst (merge keep_left run_state) =
     [MergeCall LocationT, MergeDone LocationT,
      UpdateIDsCall (LeftList BookmarkT) (RightList BookmarkT) ''LocationID'' LocationT,
      UpdateIDsCall (LeftList BookmarkT) (RightList BookmarkT) ''PublicationLocationID'' LocationT,
      UpdateIDsCall (LeftList NoteT) (RightList NoteT) ''LocationID'' LocationT,
      UpdateIDsCall (LeftList TagMapT) (RightList TagMapT) ''LocationID'' LocationT,
      MergeCall BookmarkT, MergeDone BookmarkT,
      MergeCall TagT, MergeDone TagT,
      UpdateIDsCall (LeftList TagMapT) (RightList TagMapT) ''TagID'' TagT,
      MergeCall TagMapT, MergeDone TagMapT,
      MergeCall UserMarkT, MergeDone UserMarkT,
      UpdateIDsCall (LeftList NoteT) (RightList NoteT) ''UserMarkID'' UserMarkT,
      MergeCall NoteT, MergeDone NoteT,
      UpdateIDsCall (MergedList TagMapT) NilArg ''NoteID'' NoteT]"
  by (simp add: run_defs)

lemma merge_call_order_keep_left:
  "MergeCall TagMapT \<in> set (fst (merge keep_left run_state)) \<and>
   MergeDone LocationT \<in> set (before (MergeCall TagMapT) (fst (merge keep_left run_state))) \<and>
   UpdateIDsCall (LeftList TagMapT) (RightList TagMapT) ''LocationID'' LocationT
     \<in> set (before (MergeCall TagMapT) (fst (merge keep_left run_state))) \<and>
   MergeDone TagT \<in> set (before (MergeCall TagMapT) (fst (merge keep_left run_state))) \<and>
   UpdateIDsCall (LeftList TagMapT) (RightList TagMapT) ''TagID'' TagT
     \<in> set (before (MergeCall TagMapT) (fst (merge keep_left run_state))) \<and>
   MergeCall NoteT \<notin> set (before (MergeCall TagMapT) (fst (merge keep_left run_state)))"
proof -
  have h: "MergeCall TagMapT \<in> set (fst (merge keep_left run_state))"
    by (simp add: keep_left_calls)
  from merge_call_order [OF h] h show ?thesis by blast
qed

text \<open>
  The last call of this run is given nil for its right list. \<open>UpdateIDs\<close> of package
  \<open>model\<close> panics on nil, so with \<^const>\<open>UpdateIDs_both\<close> the run ends in that call.
\<close>

lemma keep_left_run_ends:
  "UpdateIDs NilInterface name chg h =
     Inl ''runtime error: invalid memory address or nil pointer dereference''"
  "snd (merge keep_left run_state) = None"
  by (simp_all add: run_defs)

text \<open>
  Claim C3 and the code. The claim wants the TagMaps merged only after the Tags, the Notes
  and the Locations have been merged and their changes applied to the left and the right
  TagMap lists. The driver does so for the Locations and the Tags, and not for the Notes.
  In this run \<open>merger.UpdateIDs\<close> is called for the left and right TagMap lists with the
  changes of the Locations and of the Tags before \<open>MergeTagMaps\<close> is called; \<open>MergeTagMaps\<close>
  is called, and has returned, before \<open>MergeNotes\<close> is called at all; no call for \<open>NoteID\<close>
  is ever given the left and right TagMap lists; the one call for \<open>NoteID\<close> is made last,
  for the merged TagMap list, with nil for the right side.
\<close>

theorem merge_TagMaps_before_Notes:
  "UpdateIDsCall (LeftList TagMapT) (RightList TagMapT) ''LocationID'' LocationT
     \<in> set (before (MergeCall TagMapT) (fst (merge keep_left run_state))) \<and>
   UpdateIDsCall (LeftList TagMapT) (RightList TagMapT) ''TagID'' TagT
     \<in> set (before (MergeCall TagMapT) (fst (merge keep_left run_state))) \<and>
   MergeCall TagMapT \<in> set (fst (merge keep_left run_state)) \<and>
   MergeCall NoteT \<notin> set (before (MergeCall TagMapT) (fst (merge keep_left run_state))) \<and>
   MergeDone NoteT \<notin> set (before (MergeCall TagMapT) (fst (merge keep_left run_state))) \<and>
   MergeDone TagMapT \<in> set (before (MergeCall NoteT) (fst (merge keep_left run_state))) \<and>
   UpdateIDsCall (LeftList TagMapT) (RightList TagMapT) ''NoteID'' NoteT
     \<notin> set (fst (merge keep_left run_state)) \<and>
   last (fst (merge keep_left run_state)) =
     UpdateIDsCall (MergedList TagMapT) NilArg ''NoteID'' NoteT"
  by (simp add: keep_left_calls before_def)

text \<open>
  In no run of the driver is a call of \<open>merger.UpdateIDs\<close> given a UserMark list, for the
  changes of the Locations or any other.
\<close>

lemma merge_never_updates_UserMarks:
  assumes "UpdateIDsCall l r name src \<in> set (fst (merge P st))"
  shows "l \<notin> {LeftList UserMarkT, RightList UserMarkT, MergedList UserMarkT} \<and>
         r \<notin> {LeftList UserMarkT, RightList UserMarkT, MergedList UserMarkT}"
proof -
  from made_merge [of P st] obtain n2 n3 n4 n5 n6 where
    "made (all_calls n2 n3 n4 n5 n6) (merge P st)"
    by blast
  then have "prefix (fst (merge P st)) (all_calls n2 n3 n4 n5 n6)"
    by (simp add: made_def)
  then have "set (fst (merge P st)) \<subseteq> set (all_calls n2 n3 n4 n5 n6)"
    by (rule set_mono_prefix)
  with assms have "UpdateIDsCall l r name src \<in> set (all_calls n2 n3 n4 n5 n6)" by auto
  then show ?thesis by (auto simp: calls_defs)
qed

text \<open>
  Claim C4 and the code. After the merge of the Locations the driver applies the changes
  to the Bookmarks (both fields), the Notes and the TagMaps, and not to the UserMarks.
  In the run of \<^const>\<open>keep_left\<close> the merge of the Locations reports that the left location
  1 is now 5. The bookmark (address 1) and the highlight (address 2) of the left side both
  point to the location 1; after the first step the bookmark points to 5 and the highlight
  still to 1, which the claim says is rewritten as well.
\<close>

theorem merge_leaves_UserMark_LocationID:
  "FieldByName (heap run_state 1) ''LocationID'' = Some (VInt 1) \<and>
   FieldByName (heap run_state 2) ''LocationID'' = Some (VInt 1) \<and>
   (case snd (locations_step keep_left run_state) of
      None \<Rightarrow> False
    | Some st \<Rightarrow>
        FieldByName (heap st 1) ''LocationID'' = Some (VInt 5) \<and>
        FieldByName (heap st 2) ''LocationID'' = Some (VInt 1) \<and>
        UserMark (left st) = [None, Some 2])"
  by (simp add: run_defs)


end
